theory Spec2Isabelle
  imports Main "HOL-Library.Word"
begin

unbundle bit_operations_syntax

section \<open>Data model\<close>

text \<open>
  The kernel's fixed-width integers. \<open>s32\<close> shares the representation of \<open>u32\<close>; a signed
  value is read with \<open>sint\<close> and compared with \<open><s\<close>. Conversions between widths keep
  the low bits (\<open>ucast\<close>), which is what GCC does for the narrowing conversions of the source.
  The kernel is built with wrapping signed arithmetic, so negation of an \<open>s32\<close> is the
  negation of the word. \<open>unsigned long\<close> is taken as 64 bits wide.
\<close>

type_synonym u32 = "32 word"
type_synonym s32 = "32 word"
type_synonym u64 = "64 word"
type_synonym ulong = "64 word"

text \<open>
  What the controller uses from the rest of the kernel and is not part of the translated
  files: the value of the macro \<open>PM_QOS_DEFAULT_VALUE\<close> and the conversion
  \<open>nsecs_to_jiffies\<close>. Both are parameters of the model.
\<close>

record kernel_env =
  PM_QOS_DEFAULT_VALUE :: s32
  nsecs_to_jiffies :: "u64 \<Rightarrow> ulong"

text \<open>
  \<open>struct intel_qos\<close>. The PM QoS request is represented by the value last handed to it,
  the timer by its expiry in jiffies while it is pending (\<open>None\<close> when it is not).
\<close>

record intel_qos =
  req :: s32
  timer :: "ulong option"
  target_hz :: u32
  delay_max_ns :: u32
  delay_slope_shift :: u32
  debug :: u32
  time_set_ns :: u64
  time_clear_ns :: u64
  active_count :: s32

section \<open>Operations of the scaling-response controller\<close>

text \<open>
  A left shift of a 64-bit operand and a right shift of a 32-bit operand are undefined in C
  when the count is not smaller than the width of the operand. The model returns \<open>None\<close>
  there; every function that evaluates such a shift returns an \<open>option\<close>.
\<close>

definition shl_u64 :: "u64 \<Rightarrow> u32 \<Rightarrow> u64 option" where
  "shl_u64 x n = (if unat n < 64 then Some (push_bit (unat n) x) else None)"

definition shr_u32 :: "u32 \<Rightarrow> u32 \<Rightarrow> u32 option" where
  "shr_u32 x n = (if unat n < 32 then Some (drop_bit (unat n) x) else None)"

text \<open>The kernel macros \<open>abs\<close> and \<open>max(0, _)\<close> at type \<open>s32\<close>.\<close>

definition abs_s32 :: "s32 \<Rightarrow> s32" where
  "abs_s32 x = (if x <s 0 then - x else x)"

definition max0_s32 :: "s32 \<Rightarrow> s32" where
  "max0_s32 x = (if 0 <s x then x else 0)"

text \<open>
  \<open>time_to_sf_qos_update_ns\<close>; \<open>t1\<close> is the value read from \<open>ktime_get_ns()\<close>.
\<close>

definition time_to_sf_qos_update_ns :: "intel_qos \<Rightarrow> u64 \<Rightarrow> s32 option" where
  "time_to_sf_qos_update_ns qos t1 =
     (let dt1 = (ucast (delay_max_ns qos) :: u64) in
      if active_count qos \<noteq> 0 then
        (let t0 = time_set_ns qos in
         Some (ucast (min dt1 (if t0 \<le> t1 then 0 else t0 - t1))))
      else
        (let t0 = time_clear_ns qos; shift = delay_slope_shift qos in
         if t1 \<le> t0 then Some (- (ucast (1 :: u64)))
         else (case shl_u64 (t1 - t0) shift of
                 None \<Rightarrow> None
               | Some e \<Rightarrow> Some (- (ucast (min dt1 e))))))"

text \<open>
  Modelled from the spec: \<open>timer_reduce\<close>, which lives in the kernel's timer core. An
  expiry that is not sooner than the pending one leaves the timer as it is; otherwise, and
  when the timer is not pending, the timer is armed at the new expiry. Expiries are compared
  as unsigned numbers.
\<close>

definition timer_reduce :: "ulong option \<Rightarrow> ulong \<Rightarrow> ulong option" where
  "timer_reduce tm expires =
     (case tm of
        None \<Rightarrow> Some expires
      | Some pending \<Rightarrow> if pending \<le> expires then Some pending else Some expires)"

text \<open>
  \<open>intel_qos_update\<close>; \<open>t1\<close> is the clock value read by the call of
  \<open>time_to_sf_qos_update_ns\<close>, \<open>j\<close> the value of \<open>jiffies\<close>.
\<close>

definition intel_qos_update :: "kernel_env \<Rightarrow> intel_qos \<Rightarrow> u64 \<Rightarrow> ulong \<Rightarrow> intel_qos option" where
  "intel_qos_update K qos t1 j =
     (case time_to_sf_qos_update_ns qos t1 of
        None \<Rightarrow> None
      | Some r \<Rightarrow>
          (let dt = (max0_s32 r :: u32) in
           Some (qos\<lparr>timer := timer_reduce (timer qos) (j + nsecs_to_jiffies K (ucast dt))\<rparr>)))"

text \<open>
  \<open>intel_qos_timeout\<close>, the timer callback. \<open>t1\<close> is the clock value read by its own call
  of \<open>time_to_sf_qos_update_ns\<close>; \<open>t2\<close> and \<open>j\<close> are the clock value and the jiffies read by
  \<open>intel_qos_update\<close> when it is called.
\<close>

definition intel_qos_timeout ::
  "kernel_env \<Rightarrow> intel_qos \<Rightarrow> u64 \<Rightarrow> u64 \<Rightarrow> ulong \<Rightarrow> intel_qos option" where
  "intel_qos_timeout K qos t1 t2 j =
     (case time_to_sf_qos_update_ns qos t1 of
        None \<Rightarrow> None
      | Some dt \<Rightarrow>
          (let v = (if dt = 0 then target_hz qos else PM_QOS_DEFAULT_VALUE K);
               qos1 = qos\<lparr>req := v\<rparr>
           in if 0 <s dt then intel_qos_update K qos1 t2 j else Some qos1))"

text \<open>
  \<open>intel_qos_overload_begin\<close>. The three clock values are read, in this order, by
  \<open>time_to_sf_qos_update_ns\<close> (\<open>ta\<close>), by the store to \<open>time_set_ns\<close> (\<open>tb\<close>) and by
  \<open>intel_qos_update\<close> (\<open>tc\<close>, with the jiffies \<open>j\<close>).
\<close>

definition intel_qos_overload_begin ::
  "kernel_env \<Rightarrow> intel_qos \<Rightarrow> u64 \<Rightarrow> u64 \<Rightarrow> u64 \<Rightarrow> ulong \<Rightarrow> intel_qos option" where
  "intel_qos_overload_begin K qos ta tb tc j =
     (case time_to_sf_qos_update_ns qos ta of
        None \<Rightarrow> None
      | Some r \<Rightarrow>
          (let dt = (abs_s32 r :: u32);
               qos1 = qos\<lparr>time_set_ns := tb + ucast dt\<rparr>;
               old = active_count qos1;
               qos2 = qos1\<lparr>active_count := old + 1\<rparr>
           in if old = 0 then intel_qos_update K qos2 tc j else Some qos2))"

text \<open>\<open>intel_qos_overload_end\<close>, with the clock values as in \<open>intel_qos_overload_begin\<close>.\<close>

definition intel_qos_overload_end ::
  "kernel_env \<Rightarrow> intel_qos \<Rightarrow> u64 \<Rightarrow> u64 \<Rightarrow> u64 \<Rightarrow> ulong \<Rightarrow> intel_qos option" where
  "intel_qos_overload_end K qos ta tb tc j =
     (case time_to_sf_qos_update_ns qos ta of
        None \<Rightarrow> None
      | Some r \<Rightarrow>
          (let dt = (abs_s32 r :: u32); shift = delay_slope_shift qos in
           case shr_u32 dt shift of
             None \<Rightarrow> None
           | Some s \<Rightarrow>
               (let qos1 = qos\<lparr>time_clear_ns := tb - ucast s\<rparr>;
                    new = active_count qos1 - 1;
                    qos2 = qos1\<lparr>active_count := new\<rparr>
                in if new = 0 then intel_qos_update K qos2 tc j else Some qos2)))"

text \<open>\<open>intel_qos_init\<close>.\<close>

definition intel_qos_init :: "kernel_env \<Rightarrow> intel_qos \<Rightarrow> intel_qos" where
  "intel_qos_init K qos =
     qos\<lparr>req := PM_QOS_DEFAULT_VALUE K,
         delay_max_ns := 10000000,
         delay_slope_shift := 1,
         target_hz := 2,
         timer := None\<rparr>"

section \<open>The response-frequency controller of \<open>intel_gt_pm.c\<close>\<close>

text \<open>
  The member \<open>rf_qos\<close> of \<open>struct intel_gt\<close>; the other members of the structure are not
  used by the functions below. A field \<open>gt->rf_qos.f\<close> is written \<open>rf_qos_f gt\<close>.
\<close>

record intel_gt =
  rf_qos_req :: s32
  rf_qos_timer :: "ulong option"
  rf_qos_target_hz :: u32
  rf_qos_delay_max_ns :: u32
  rf_qos_delay_slope_shift :: u32
  rf_qos_time_set_ns :: u64
  rf_qos_time_clear_ns :: u64
  rf_qos_active_count :: s32

text \<open>\<open>time_to_rf_qos_update_ns\<close>.\<close>

definition time_to_rf_qos_update_ns :: "intel_gt \<Rightarrow> u64 \<Rightarrow> s32 option" where
  "time_to_rf_qos_update_ns gt t1 =
     (let dt1 = (ucast (rf_qos_delay_max_ns gt) :: u64) in
      if rf_qos_active_count gt \<noteq> 0 then
        (let t0 = rf_qos_time_set_ns gt in
         Some (ucast (min dt1 (if t0 \<le> t1 then 0 else t0 - t1))))
      else
        (let t0 = rf_qos_time_clear_ns gt; shift = rf_qos_delay_slope_shift gt in
         if t1 \<le> t0 then Some (- (ucast (1 :: u64)))
         else (case shl_u64 (t1 - t0) shift of
                 None \<Rightarrow> None
               | Some e \<Rightarrow> Some (- (ucast (min dt1 e))))))"

text \<open>\<open>intel_gt_rf_qos_update\<close>.\<close>

definition intel_gt_rf_qos_update :: "kernel_env \<Rightarrow> intel_gt \<Rightarrow> u64 \<Rightarrow> ulong \<Rightarrow> intel_gt option" where
  "intel_gt_rf_qos_update K gt t1 j =
     (case time_to_rf_qos_update_ns gt t1 of
        None \<Rightarrow> None
      | Some r \<Rightarrow>
          (let dt = (max0_s32 r :: u32) in
           Some (gt\<lparr>rf_qos_timer :=
                      timer_reduce (rf_qos_timer gt) (j + nsecs_to_jiffies K (ucast dt))\<rparr>)))"

text \<open>\<open>intel_gt_rf_qos_timeout\<close>; the request is updated in either branch of the test.\<close>

definition intel_gt_rf_qos_timeout ::
  "kernel_env \<Rightarrow> intel_gt \<Rightarrow> u64 \<Rightarrow> u64 \<Rightarrow> ulong \<Rightarrow> intel_gt option" where
  "intel_gt_rf_qos_timeout K gt t1 t2 j =
     (case time_to_rf_qos_update_ns gt t1 of
        None \<Rightarrow> None
      | Some dt \<Rightarrow>
          (let gt1 = (if dt = 0 then gt\<lparr>rf_qos_req := rf_qos_target_hz gt\<rparr>
                      else gt\<lparr>rf_qos_req := PM_QOS_DEFAULT_VALUE K\<rparr>)
           in if 0 <s dt then intel_gt_rf_qos_update K gt1 t2 j else Some gt1))"

text \<open>\<open>intel_gt_pm_active_begin\<close>.\<close>

definition intel_gt_pm_active_begin ::
  "kernel_env \<Rightarrow> intel_gt \<Rightarrow> u64 \<Rightarrow> u64 \<Rightarrow> u64 \<Rightarrow> ulong \<Rightarrow> intel_gt option" where
  "intel_gt_pm_active_begin K gt ta tb tc j =
     (case time_to_rf_qos_update_ns gt ta of
        None \<Rightarrow> None
      | Some r \<Rightarrow>
          (let dt = (abs_s32 r :: u32);
               gt1 = gt\<lparr>rf_qos_time_set_ns := tb + ucast dt\<rparr>;
               old = rf_qos_active_count gt1;
               gt2 = gt1\<lparr>rf_qos_active_count := old + 1\<rparr>
           in if old = 0 then intel_gt_rf_qos_update K gt2 tc j else Some gt2))"

text \<open>\<open>intel_gt_pm_active_end\<close>.\<close>

definition intel_gt_pm_active_end ::
  "kernel_env \<Rightarrow> intel_gt \<Rightarrow> u64 \<Rightarrow> u64 \<Rightarrow> u64 \<Rightarrow> ulong \<Rightarrow> intel_gt option" where
  "intel_gt_pm_active_end K gt ta tb tc j =
     (case time_to_rf_qos_update_ns gt ta of
        None \<Rightarrow> None
      | Some r \<Rightarrow>
          (let dt = (abs_s32 r :: u32); shift = rf_qos_delay_slope_shift gt in
           case shr_u32 dt shift of
             None \<Rightarrow> None
           | Some s \<Rightarrow>
               (let gt1 = gt\<lparr>rf_qos_time_clear_ns := tb - ucast s\<rparr>;
                    new = rf_qos_active_count gt1 - 1;
                    gt2 = gt1\<lparr>rf_qos_active_count := new\<rparr>
                in if new = 0 then intel_gt_rf_qos_update K gt2 tc j else Some gt2)))"

text \<open>
  The part of \<open>intel_gt_pm_init_early\<close> that sets the controller up.
\<close>

definition intel_gt_pm_init_early :: "kernel_env \<Rightarrow> intel_gt \<Rightarrow> intel_gt" where
  "intel_gt_pm_init_early K gt =
     gt\<lparr>rf_qos_req := PM_QOS_DEFAULT_VALUE K,
        rf_qos_delay_max_ns := 250000,
        rf_qos_delay_slope_shift := 0,
        rf_qos_target_hz := 2,
        rf_qos_timer := None\<rparr>"

text \<open>
  The two controllers hold the same configuration, the same counters and timestamps, the
  same pending timer and the same requested value.
\<close>

definition same_controller :: "intel_gt \<Rightarrow> intel_qos \<Rightarrow> bool" where
  "same_controller gt qos \<longleftrightarrow>
     rf_qos_req gt = req qos \<and>
     rf_qos_timer gt = timer qos \<and>
     rf_qos_target_hz gt = target_hz qos \<and>
     rf_qos_delay_max_ns gt = delay_max_ns qos \<and>
     rf_qos_delay_slope_shift gt = delay_slope_shift qos \<and>
     rf_qos_time_set_ns gt = time_set_ns qos \<and>
     rf_qos_time_clear_ns gt = time_clear_ns qos \<and>
     rf_qos_active_count gt = active_count qos"

section \<open>Sequences of calls\<close>

text \<open>
  The expiry that \<open>intel_qos_update\<close> hands to \<open>timer_reduce\<close>:
  \<open>jiffies + nsecs_to_jiffies(max(0, time_to_sf_qos_update_ns(qos)))\<close>.
\<close>

definition intel_qos_update_expires :: "kernel_env \<Rightarrow> intel_qos \<Rightarrow> u64 \<Rightarrow> ulong \<Rightarrow> ulong option" where
  "intel_qos_update_expires K qos t1 j =
     (case time_to_sf_qos_update_ns qos t1 of
        None \<Rightarrow> None
      | Some r \<Rightarrow> Some (j + nsecs_to_jiffies K (ucast (max0_s32 r))))"

text \<open>
  A sequence of calls of \<open>intel_qos_update\<close> on one timer. Each call comes with the
  controller as it is when the call is made (begin and end change counters and timestamps
  between the calls) and with the clock value and the jiffies the call reads; the timer is
  threaded through the calls.
\<close>

fun intel_qos_updates ::
  "kernel_env \<Rightarrow> ulong option \<Rightarrow> (intel_qos \<times> u64 \<times> ulong) list \<Rightarrow> ulong option option" where
  "intel_qos_updates K tm [] = Some tm"
| "intel_qos_updates K tm ((qos, t1, j) # cs) =
     (case intel_qos_update K (qos\<lparr>timer := tm\<rparr>) t1 j of
        None \<Rightarrow> None
      | Some qos' \<Rightarrow> intel_qos_updates K (timer qos') cs)"

section \<open>Interleaved executions\<close>

text \<open>
  \<open>time_to_sf_qos_update_ns\<close> with its two loads of shared state taken apart: \<open>count\<close> is
  the value it loads from \<open>active_count\<close> and \<open>t0\<close> the value it then loads from
  \<open>time_set_ns\<close> or \<open>time_clear_ns\<close>. \<open>delay_max_ns\<close> and \<open>delay_slope_shift\<close> are not
  written after initialisation.
\<close>

definition time_to_loaded :: "intel_qos \<Rightarrow> u64 \<Rightarrow> s32 \<Rightarrow> u64 \<Rightarrow> s32 option" where
  "time_to_loaded qos t1 count t0 =
     (let dt1 = (ucast (delay_max_ns qos) :: u64) in
      if count \<noteq> 0 then Some (ucast (min dt1 (if t0 \<le> t1 then 0 else t0 - t1)))
      else
        (let shift = delay_slope_shift qos in
         if t1 \<le> t0 then Some (- (ucast (1 :: u64)))
         else (case shl_u64 (t1 - t0) shift of
                 None \<Rightarrow> None
               | Some e \<Rightarrow> Some (- (ucast (min dt1 e))))))"

definition load_stamp :: "intel_qos \<Rightarrow> s32 \<Rightarrow> u64" where
  "load_stamp qos count = (if count \<noteq> 0 then time_set_ns qos else time_clear_ns qos)"

text \<open>
  Two threads work on one controller. The caller thread runs the entry points of its
  list \<open>todo\<close>, one after the other; it is the only thread that writes \<open>active_count\<close>,
  \<open>time_set_ns\<close> and \<open>time_clear_ns\<close>. The timer thread runs \<open>intel_qos_timeout\<close>, never
  concurrently with itself. Each thread advances by steps, and the steps of the two threads
  interleave in any order. A step of the caller is one statement of the source. A step of
  the timer thread contains at most one access to a variable that the caller writes, so
  that \<open>time_to_sf_qos_update_ns\<close> takes two steps there, one for each load. The program
  counters carry the local variables.
\<close>

datatype entry = Begin | End

datatype caller_pc =
    Caller_idle
  | Begin_store u32
  | Begin_inc
  | Begin_update
  | End_store u32
  | End_dec
  | End_update

datatype timer_pc =
    Timer_idle
  | Timeout_count
  | Timeout_stamp u64 s32
  | Timeout_req s32
  | Update_count
  | Update_stamp u64 s32
  | Update_timer s32

text \<open>
  The system: the controller, the two threads, and the values handed to the PM QoS request
  so far, oldest first.
\<close>

record system =
  ctl :: intel_qos
  todo :: "entry list"
  caller :: caller_pc
  callback :: timer_pc
  issued :: "s32 list"

text \<open>
  One step of the caller thread; \<open>t\<close> and \<open>j\<close> are the clock value and the jiffies at the
  step. From \<open>Caller_idle\<close> the thread enters the next entry point and computes \<open>dt\<close>
  (\<open>intel_qos_overload_begin\<close>: line 77 of the source, \<open>intel_qos_overload_end\<close>: line 92);
  \<open>Begin_store\<close> and \<open>End_store\<close> are the stores of lines 79 and 95, \<open>Begin_inc\<close> and
  \<open>End_dec\<close> the atomic operations of lines 81 and 97, \<open>Begin_update\<close> and \<open>End_update\<close>
  the calls of \<open>intel_qos_update\<close> in lines 82 and 98.
\<close>

definition caller_step :: "kernel_env \<Rightarrow> system \<Rightarrow> u64 \<Rightarrow> ulong \<Rightarrow> system option" where
  "caller_step K s t j =
     (case caller s of
        Caller_idle \<Rightarrow>
          (case todo s of
             [] \<Rightarrow> Some s
           | Begin # es \<Rightarrow>
               (case time_to_sf_qos_update_ns (ctl s) t of
                  None \<Rightarrow> None
                | Some r \<Rightarrow> Some (s\<lparr>todo := es, caller := Begin_store (abs_s32 r)\<rparr>))
           | End # es \<Rightarrow>
               (case time_to_sf_qos_update_ns (ctl s) t of
                  None \<Rightarrow> None
                | Some r \<Rightarrow> Some (s\<lparr>todo := es, caller := End_store (abs_s32 r)\<rparr>)))
      | Begin_store dt \<Rightarrow>
          Some (s\<lparr>ctl := (ctl s)\<lparr>time_set_ns := t + ucast dt\<rparr>, caller := Begin_inc\<rparr>)
      | Begin_inc \<Rightarrow>
          (let old = active_count (ctl s) in
           Some (s\<lparr>ctl := (ctl s)\<lparr>active_count := old + 1\<rparr>,
                   caller := (if old = 0 then Begin_update else Caller_idle)\<rparr>))
      | Begin_update \<Rightarrow>
          (case intel_qos_update K (ctl s) t j of
             None \<Rightarrow> None
           | Some qos' \<Rightarrow> Some (s\<lparr>ctl := qos', caller := Caller_idle\<rparr>))
      | End_store dt \<Rightarrow>
          (case shr_u32 dt (delay_slope_shift (ctl s)) of
             None \<Rightarrow> None
           | Some x \<Rightarrow>
               Some (s\<lparr>ctl := (ctl s)\<lparr>time_clear_ns := t - ucast x\<rparr>, caller := End_dec\<rparr>))
      | End_dec \<Rightarrow>
          (let new = active_count (ctl s) - 1 in
           Some (s\<lparr>ctl := (ctl s)\<lparr>active_count := new\<rparr>,
                   caller := (if new = 0 then End_update else Caller_idle)\<rparr>))
      | End_update \<Rightarrow>
          (case intel_qos_update K (ctl s) t j of
             None \<Rightarrow> None
           | Some qos' \<Rightarrow> Some (s\<lparr>ctl := qos', caller := Caller_idle\<rparr>)))"

text \<open>
  One step of the timer thread. Modelled from the spec: the timer service runs the
  callback when the timer expires, and the timer is no longer pending when the callback
  starts; this is the step from \<open>Timer_idle\<close>, which may be taken at any time.
  \<open>Timeout_count\<close> reads the clock and loads \<open>active_count\<close> (lines 23 to 26),
  \<open>Timeout_stamp\<close> loads the timestamp and computes \<open>dt\<close> (lines 27 to 34), \<open>Timeout_req\<close>
  hands the value to the request (lines 58 to 61). When \<open>dt > 0\<close>, \<open>Update_count\<close> and
  \<open>Update_stamp\<close> are the two loads of the call of \<open>intel_qos_update\<close> in line 64, and
  \<open>Update_timer\<close> is its \<open>timer_reduce\<close>.
\<close>

definition timer_step :: "kernel_env \<Rightarrow> system \<Rightarrow> u64 \<Rightarrow> ulong \<Rightarrow> system option" where
  "timer_step K s t j =
     (case callback s of
        Timer_idle \<Rightarrow> Some (s\<lparr>ctl := (ctl s)\<lparr>timer := None\<rparr>, callback := Timeout_count\<rparr>)
      | Timeout_count \<Rightarrow> Some (s\<lparr>callback := Timeout_stamp t (active_count (ctl s))\<rparr>)
      | Timeout_stamp t1 c \<Rightarrow>
          (case time_to_loaded (ctl s) t1 c (load_stamp (ctl s) c) of
             None \<Rightarrow> None
           | Some dt \<Rightarrow> Some (s\<lparr>callback := Timeout_req dt\<rparr>))
      | Timeout_req dt \<Rightarrow>
          (let v = (if dt = 0 then target_hz (ctl s) else PM_QOS_DEFAULT_VALUE K) in
           Some (s\<lparr>ctl := (ctl s)\<lparr>req := v\<rparr>, issued := issued s @ [v],
                   callback := (if 0 <s dt then Update_count else Timer_idle)\<rparr>))
      | Update_count \<Rightarrow> Some (s\<lparr>callback := Update_stamp t (active_count (ctl s))\<rparr>)
      | Update_stamp t1 c \<Rightarrow>
          (case time_to_loaded (ctl s) t1 c (load_stamp (ctl s) c) of
             None \<Rightarrow> None
           | Some r \<Rightarrow> Some (s\<lparr>callback := Update_timer r\<rparr>))
      | Update_timer r \<Rightarrow>
          Some (s\<lparr>ctl := (ctl s)\<lparr>timer :=
                     timer_reduce (timer (ctl s)) (j + nsecs_to_jiffies K (ucast (max0_s32 r)))\<rparr>,
                  callback := Timer_idle\<rparr>))"

text \<open>
  A schedule says which thread takes the next step, with the clock value and the jiffies at
  that step; a step that reads neither ignores them.
\<close>

datatype turn = Caller u64 ulong | Timer u64 ulong

fun turn_step :: "kernel_env \<Rightarrow> system \<Rightarrow> turn \<Rightarrow> system option" where
  "turn_step K s (Caller t j) = caller_step K s t j"
| "turn_step K s (Timer t j) = timer_step K s t j"

fun run :: "kernel_env \<Rightarrow> system \<Rightarrow> turn list \<Rightarrow> system option" where
  "run K s [] = Some s"
| "run K s (x # xs) = (case turn_step K s x of None \<Rightarrow> None | Some s' \<Rightarrow> run K s' xs)"

definition timers :: "(u64 \<times> ulong) list \<Rightarrow> turn list" where
  "timers rs = map (\<lambda>(t, j). Timer t j) rs"

text \<open>
  What the timer thread finds in order: the deadline \<open>d\<close> is in \<open>time_set_ns\<close> while the
  counter is raised, a callback that has loaded a raised counter has read the clock before
  \<open>d\<close>, a callback that has loaded a counter of 0 holds a clock value that does not
  overflow the 64-bit shift, and a callback about to update the request holds a \<open>dt\<close>
  other than 0.
\<close>

definition callback_inv :: "u64 \<Rightarrow> system \<Rightarrow> bool" where
  "callback_inv d s \<longleftrightarrow>
     (active_count (ctl s) \<noteq> 0 \<longrightarrow> time_set_ns (ctl s) = d) \<and>
     (case callback s of
        Timeout_stamp t1 c \<Rightarrow>
          (c = 0 \<longrightarrow> uint t1 * 2 ^ unat (delay_slope_shift (ctl s)) < 2 ^ 64) \<and>
          (c \<noteq> 0 \<longrightarrow> time_set_ns (ctl s) = d \<and> uint t1 < uint d)
      | Timeout_req dt \<Rightarrow> dt \<noteq> 0
      | _ \<Rightarrow> True)"

text \<open>What a step of the timer thread leaves alone.\<close>

definition timer_frame :: "system \<Rightarrow> system \<Rightarrow> bool" where
  "timer_frame s s' \<longleftrightarrow>
     todo s' = todo s \<and> caller s' = caller s \<and>
     active_count (ctl s') = active_count (ctl s) \<and>
     time_set_ns (ctl s') = time_set_ns (ctl s) \<and>
     time_clear_ns (ctl s') = time_clear_ns (ctl s) \<and>
     delay_max_ns (ctl s') = delay_max_ns (ctl s) \<and>
     delay_slope_shift (ctl s') = delay_slope_shift (ctl s) \<and>
     target_hz (ctl s') = target_hz (ctl s)"

text \<open>
  The facts carried from one step of the caller to the next: the state of the timer thread
  is in order, the configuration is that of the controller \<open>q0\<close> at the start, only the
  default value has been handed to the request, and the caller stands at \<open>pc\<close> with the
  entry points \<open>es\<close> left to run and the counter at \<open>n\<close>.
\<close>

definition stage :: "kernel_env \<Rightarrow> intel_qos \<Rightarrow> u64 \<Rightarrow> caller_pc \<Rightarrow> entry list \<Rightarrow> s32 \<Rightarrow> system \<Rightarrow> bool" where
  "stage K q0 d pc es n s \<longleftrightarrow>
     callback_inv d s \<and>
     delay_max_ns (ctl s) = delay_max_ns q0 \<and>
     delay_slope_shift (ctl s) = delay_slope_shift q0 \<and>
     (\<forall>v \<in> set (issued s). v = PM_QOS_DEFAULT_VALUE K) \<and>
     caller s = pc \<and> todo s = es \<and> active_count (ctl s) = n"

section \<open>Concrete configurations\<close>

text \<open>
  A kernel with \<open>HZ = 250\<close> (one jiffy is 4000000 ns) and the default value \<open>-1\<close>, and a
  controller in zeroed memory, as \<open>intel_qos_init\<close> receives it.
\<close>

definition example_env :: kernel_env where
  "example_env = \<lparr>PM_QOS_DEFAULT_VALUE = - 1, nsecs_to_jiffies = (\<lambda>n. n div 4000000)\<rparr>"

definition qos_zeroed :: intel_qos where
  "qos_zeroed = \<lparr>req = 0, timer = None, target_hz = 0, delay_max_ns = 0,
     delay_slope_shift = 0, debug = 0, time_set_ns = 0, time_clear_ns = 0, active_count = 0\<rparr>"

definition qos_fresh :: intel_qos where
  "qos_fresh = intel_qos_init example_env qos_zeroed"

text \<open>States at which claims are evaluated.\<close>

definition c1_state :: intel_qos where
  "c1_state =
     qos_fresh\<lparr>delay_max_ns := 0x80000000, time_set_ns := 5147483648, active_count := 1\<rparr>"

definition c2_state :: intel_qos where
  "c2_state = qos_fresh\<lparr>delay_max_ns := 0xFFFFFFFF, delay_slope_shift := 0, time_clear_ns := 1000\<rparr>"

definition c6_state :: intel_qos where
  "c6_state = qos_fresh\<lparr>delay_max_ns := 0, time_clear_ns := 5000\<rparr>"

definition qos_busy :: intel_qos where
  "qos_busy = qos_fresh\<lparr>time_set_ns := 1010000010, active_count := 1, timer := Some 252\<rparr>"

definition c5_state :: intel_qos where
  "c5_state = qos_busy\<lparr>delay_slope_shift := 32\<rparr>"

text \<open>
  The controller of \<open>intel_gt_pm.c\<close> after \<open>intel_gt_pm_init_early\<close>, and a
  scaling-response controller with the same configuration.
\<close>

definition gt_zeroed :: intel_gt where
  "gt_zeroed = \<lparr>rf_qos_req = 0, rf_qos_timer = None, rf_qos_target_hz = 0,
     rf_qos_delay_max_ns = 0, rf_qos_delay_slope_shift = 0, rf_qos_time_set_ns = 0,
     rf_qos_time_clear_ns = 0, rf_qos_active_count = 0\<rparr>"

definition gt_fresh :: intel_gt where
  "gt_fresh = intel_gt_pm_init_early example_env gt_zeroed"

definition qos_like_gt :: intel_qos where
  "qos_like_gt = qos_fresh\<lparr>delay_max_ns := 250000, delay_slope_shift := 0\<rparr>"

text \<open>
  The executions at which the claim about short bursts is evaluated. Each call runs without
  interruption: four steps of the caller for a begin or an end that calls
  \<open>intel_qos_update\<close>, four steps of the timer thread for a callback that does not.
\<close>

definition system_fresh :: system where
  "system_fresh = \<lparr>ctl = qos_fresh, todo = [Begin, End, Begin, End], caller = Caller_idle,
     callback = Timer_idle, issued = []\<rparr>"

definition c7_history :: "turn list" where
  "c7_history =
     [Caller 1000000000 250, Caller 1000000000 250, Caller 1000000000 250,
      Caller 1000000000 250,
      Timer 1010000000 252, Timer 1010000000 252, Timer 1010000000 252, Timer 1010000000 252,
      Caller 2000000000 500, Caller 2000000000 500, Caller 2000000000 500,
      Caller 2000000000 500,
      Timer 2000000001 500, Timer 2000000001 500, Timer 2000000001 500, Timer 2000000001 500]"

definition c7_settled :: system where
  "c7_settled =
     \<lparr>ctl = qos_fresh\<lparr>time_set_ns := 1010000000, time_clear_ns := 2000000000\<rparr>,
      todo = [Begin, End], caller = Caller_idle, callback = Timer_idle, issued = [2, - 1]\<rparr>"

definition c7_burst :: "turn list" where
  "c7_burst =
     [Caller 2000100000 500, Caller 2000100000 500, Caller 2000100000 500,
      Caller 2000100000 500,
      Timer 2000300000 500, Timer 2000300000 500, Timer 2000300000 500, Timer 2000300000 500,
      Caller 2000400000 500, Caller 2000400000 500, Caller 2000400000 500,
      Caller 2000400000 500,
      Timer 2000400001 500, Timer 2000400001 500, Timer 2000400001 500, Timer 2000400001 500]"

definition c7_late_callback :: "turn list" where
  "c7_late_callback =
     [Caller 1000000000 250, Caller 1000000000 250, Caller 1000000000 250,
      Caller 1000000000 250,
      Caller 1009000000 252, Caller 1009000000 252,
      Timer 1011000000 252, Timer 1011000000 252, Timer 1011000000 252, Timer 1011000000 252,
      Caller 1011000001 252, Caller 1011000001 252]"

section \<open>Reading words as numbers\<close>

lemma uint_ucast_up: "uint (ucast (w :: u32) :: u64) = uint w"
  by (simp add: uint_up_ucast is_up)

lemma uint_ucast_down: "uint (ucast (w :: u64) :: u32) = uint w mod 2 ^ 32"
  by (simp add: unsigned_ucast_eq take_bit_eq_mod)

lemma uint_min: "uint (min a b) = min (uint a) (uint (b :: 'a :: len word))"
  by (simp add: min_def word_le_def)

lemma sint_32: "sint (w :: s32) = (if uint w < 2 ^ 31 then uint w else uint w - 2 ^ 32)"
proof -
  define k where "k = uint w"
  have b: "0 \<le> k" "k < 2 ^ 32"
    using uint_lt2p [of w] by (simp_all add: k_def)
  have "sint w = (k + 2 ^ 31) mod 2 ^ 32 - 2 ^ 31"
    by (simp add: k_def sint_uint signed_take_bit_eq_take_bit_shift take_bit_eq_mod)
  also have "\<dots> = (if k < 2 ^ 31 then k else k - 2 ^ 32)"
  proof (cases "k < 2 ^ 31")
    case True
    then have "(k + 2 ^ 31) mod 2 ^ 32 = k + 2 ^ 31"
      using b by (intro mod_pos_pos_trivial) simp_all
    with True show ?thesis by simp
  next
    case False
    have "(k + 2 ^ 31) mod 2 ^ 32 = ((k - 2 ^ 31) + 2 ^ 32) mod 2 ^ 32"
      by (simp add: ac_simps)
    also have "\<dots> = (k - 2 ^ 31) mod 2 ^ 32"
      by (simp only: mod_add_self2)
    also have "\<dots> = k - 2 ^ 31"
      using b False by (intro mod_pos_pos_trivial) simp_all
    finally show ?thesis using False by simp
  qed
  finally show ?thesis by (simp add: k_def)
qed

lemma uint_neg_32: "uint (- w :: s32) = (if w = 0 then 0 else 2 ^ 32 - uint w)"
proof (cases "w = 0")
  case True then show ?thesis by simp
next
  case False
  then have nz: "0 < uint w" by (simp add: word_neq_0_conv word_less_def)
  have b: "uint w < 2 ^ 32" using uint_lt2p [of w] by simp
  have "uint (- w) = (- uint w) mod 2 ^ 32"
    by (simp add: uint_word_ariths)
  also have "\<dots> = (2 ^ 32 - uint w) mod 2 ^ 32"
    by (metis mod_add_self2 uminus_add_conv_diff add.commute)
  also have "\<dots> = 2 ^ 32 - uint w"
    using nz b by (intro mod_pos_pos_trivial) simp_all
  finally show ?thesis using False by simp
qed

lemma uint_0_iff_32: "(w :: s32) = 0 \<longleftrightarrow> uint w = 0"
  by (simp add: word_uint_eq_iff)

lemma sint_neg_32:
  "sint (- w :: s32) = (if uint w \<le> 2 ^ 31 then - uint w else 2 ^ 32 - uint w)"
proof -
  have b: "0 \<le> uint w" "uint w < 2 ^ 32" using uint_lt2p [of w] by simp_all
  show ?thesis
    using b by (auto simp: sint_32 [of "- w"] uint_neg_32 uint_0_iff_32)
qed

lemma abs_sint_le: "\<bar>sint (w :: s32)\<bar> \<le> uint w"
  using uint_lt2p [of w] by (auto simp: sint_32)

lemma abs_sint_neg_le: "\<bar>sint (- w :: s32)\<bar> \<le> uint w"
  using uint_lt2p [of w] by (auto simp: sint_neg_32)

lemma uint_abs_s32: "uint (abs_s32 r) = \<bar>sint r\<bar>"
proof -
  have b: "0 \<le> uint r" "uint r < 2 ^ 32" using uint_lt2p [of r] by simp_all
  show ?thesis
    using b by (auto simp: abs_s32_def word_sless_alt sint_32 [of r] uint_neg_32 uint_0_iff_32)
qed

lemma uint_max0_s32: "uint (max0_s32 r) = max 0 (sint r)"
proof -
  have b: "0 \<le> uint r" "uint r < 2 ^ 32" using uint_lt2p [of r] by simp_all
  show ?thesis
    using b by (auto simp: max0_s32_def word_sless_alt sint_32 [of r] not_less)
qed

section \<open>The two branches of \<open>time_to_sf_qos_update_ns\<close>\<close>

lemma time_to_active:
  "active_count qos \<noteq> 0 \<Longrightarrow>
   time_to_sf_qos_update_ns qos t1 =
     Some (ucast (min (ucast (delay_max_ns qos) :: u64)
                      (if time_set_ns qos \<le> t1 then 0 else time_set_ns qos - t1)))"
  by (simp add: time_to_sf_qos_update_ns_def Let_def)

lemma time_to_idle_early:
  "active_count qos = 0 \<Longrightarrow> t1 \<le> time_clear_ns qos \<Longrightarrow>
   time_to_sf_qos_update_ns qos t1 = Some (- 1)"
  by (simp add: time_to_sf_qos_update_ns_def Let_def)

lemma time_to_idle_late:
  "active_count qos = 0 \<Longrightarrow> time_clear_ns qos < t1 \<Longrightarrow> unat (delay_slope_shift qos) < 64 \<Longrightarrow>
   time_to_sf_qos_update_ns qos t1 =
     Some (- ucast (min (ucast (delay_max_ns qos) :: u64)
                        (push_bit (unat (delay_slope_shift qos)) (t1 - time_clear_ns qos))))"
  by (simp add: time_to_sf_qos_update_ns_def Let_def shl_u64_def not_le [symmetric])

lemma uint_clamped:
  "uint (ucast (min (ucast (d :: u32) :: u64) x) :: u32) = min (uint d) (uint x)"
proof -
  have "min (uint d) (uint x) < 2 ^ 32"
    using uint_lt2p [of d] by simp
  moreover have "0 \<le> min (uint d) (uint x)" by simp
  ultimately show ?thesis
    by (simp only: uint_ucast_down uint_min uint_ucast_up) simp
qed

lemma uint_remaining:
  "uint (if t0 \<le> t1 then 0 else t0 - t1 :: u64) = max 0 (uint t0 - uint t1)"
  by (auto simp: word_le_def uint_sub_if' max_def)

lemma uint_shl_64:
  "uint (push_bit n (x :: u64)) = (uint x * 2 ^ n) mod 2 ^ 64"
proof -
  have "uint (push_bit n x) = take_bit LENGTH(64) (push_bit n (uint x))"
    by (rule unsigned_push_bit_eq)
  then show ?thesis
    by (simp add: take_bit_eq_mod push_bit_eq_mult)
qed

lemma uint_elapsed: "t0 < t1 \<Longrightarrow> uint (t1 - t0 :: u64) = uint t1 - uint t0"
  by (simp add: uint_sub_if' word_less_def)

lemma time_to_bound:
  assumes "time_to_sf_qos_update_ns qos t1 = Some r"
  shows "(active_count qos = 0 \<and> t1 \<le> time_clear_ns qos \<and> r = - 1) \<or>
         \<bar>sint r\<bar> \<le> uint (delay_max_ns qos)"
proof (cases "active_count qos = 0")
  case False
  let ?m = "ucast (min (ucast (delay_max_ns qos) :: u64)
                      (if time_set_ns qos \<le> t1 then 0 else time_set_ns qos - t1)) :: s32"
  from False assms have "r = ?m" by (simp add: time_to_active)
  moreover have "uint ?m \<le> uint (delay_max_ns qos)" by (simp add: uint_clamped)
  ultimately show ?thesis using abs_sint_le [of ?m] by simp
next
  case True
  show ?thesis
  proof (cases "t1 \<le> time_clear_ns qos")
    case early: True
    with True assms show ?thesis by (simp add: time_to_idle_early)
  next
    case late: False
    let ?n = "unat (delay_slope_shift qos)"
    let ?m = "ucast (min (ucast (delay_max_ns qos) :: u64) (push_bit ?n (t1 - time_clear_ns qos))) :: s32"
    from True late assms have "?n < 64"
      by (auto simp: time_to_sf_qos_update_ns_def Let_def shl_u64_def split: if_splits)
    with True late assms have "r = - ?m" by (simp add: time_to_idle_late not_le)
    moreover have "uint ?m \<le> uint (delay_max_ns qos)" by (simp add: uint_clamped)
    ultimately show ?thesis using abs_sint_neg_le [of ?m] by simp
  qed
qed

lemma time_to_defined:
  "unat (delay_slope_shift qos) < 64 \<Longrightarrow> \<exists>r. time_to_sf_qos_update_ns qos t1 = Some r"
  by (simp add: time_to_sf_qos_update_ns_def Let_def shl_u64_def)

lemma time_to_active_sint:
  assumes "active_count qos \<noteq> 0" and "uint (delay_max_ns qos) < 2 ^ 31"
  shows "\<exists>r. time_to_sf_qos_update_ns qos t1 = Some r \<and>
     sint r = min (uint (delay_max_ns qos)) (max 0 (uint (time_set_ns qos) - uint t1)) \<and>
     (time_set_ns qos \<le> t1 \<longrightarrow> r = 0)"
proof -
  let ?x = "if time_set_ns qos \<le> t1 then 0 else time_set_ns qos - t1"
  let ?r = "ucast (min (ucast (delay_max_ns qos) :: u64) ?x) :: s32"
  from assms(1) have eq: "time_to_sf_qos_update_ns qos t1 = Some ?r"
    by (rule time_to_active)
  have ur: "uint ?r = min (uint (delay_max_ns qos)) (max 0 (uint (time_set_ns qos) - uint t1))"
    by (simp only: uint_clamped uint_remaining)
  then have "uint ?r < 2 ^ 31" using assms(2) by simp
  then have "sint ?r = uint ?r" by (simp add: sint_32)
  with eq ur show ?thesis by auto
qed

section \<open>Claims about \<open>time_to_sf_qos_update_ns\<close>\<close>

text \<open>
  C1 (counterexample): the claim as stated fails when \<open>delay_max_ns\<close> does not fit the
  signed 32-bit result. With \<open>delay_max_ns = 2^31\<close>, one outstanding begin and the deadline
  \<open>time_set_ns\<close> \<open>2^31\<close> ns ahead of the clock (3 s), the function returns the word
  \<open>0x80000000\<close>, which reads as \<open>-2^31\<close>, where the claim promises \<open>2^31\<close> and a result
  that is not negative.
\<close>

theorem C1_counterexample:
  "0 <s active_count c1_state \<and>
   time_to_sf_qos_update_ns c1_state 3000000000 = Some 0x80000000 \<and>
   sint (0x80000000 :: s32) = - 2147483648 \<and>
   min (uint (delay_max_ns c1_state))
       (max 0 (uint (time_set_ns c1_state) - uint (3000000000 :: u64)))
     = 2147483648"
  by (simp add: c1_state_def qos_fresh_def intel_qos_init_def qos_zeroed_def
      time_to_sf_qos_update_ns_def word_sless_alt)

text \<open>
  C1 (amended): for every controller state with \<open>active_count > 0\<close>,
  \<open>time_to_sf_qos_update_ns\<close> returns exactly 0 whenever \<open>time_set_ns \<le> t1\<close>, where \<open>t1\<close> is
  the clock value it reads; and whenever \<open>min(delay_max_ns, max(0, time_set_ns - t1))\<close> is
  at most \<open>2^31 - 1\<close>, as it is for every \<open>delay_max_ns \<le> 2^31 - 1\<close>, the function returns
  this value and the result is not negative.
\<close>

theorem C1_time_to_update_active:
  assumes "0 <s active_count qos"
  shows "(time_set_ns qos \<le> t1 \<longrightarrow> time_to_sf_qos_update_ns qos t1 = Some 0) \<and>
     (min (uint (delay_max_ns qos)) (max 0 (uint (time_set_ns qos) - uint t1)) < 2 ^ 31 \<longrightarrow>
        (\<exists>r. time_to_sf_qos_update_ns qos t1 = Some r \<and>
           sint r = min (uint (delay_max_ns qos)) (max 0 (uint (time_set_ns qos) - uint t1)) \<and>
           0 \<le> sint r)) \<and>
     (uint (delay_max_ns qos) < 2 ^ 31 \<longrightarrow>
        min (uint (delay_max_ns qos)) (max 0 (uint (time_set_ns qos) - uint t1)) < 2 ^ 31)"
proof (intro conjI impI)
  let ?x = "if time_set_ns qos \<le> t1 then 0 else time_set_ns qos - t1"
  let ?r = "ucast (min (ucast (delay_max_ns qos) :: u64) ?x) :: s32"
  from assms have "active_count qos \<noteq> 0" by auto
  then have eq: "time_to_sf_qos_update_ns qos t1 = Some ?r"
    by (rule time_to_active)
  show "time_to_sf_qos_update_ns qos t1 = Some 0" if "time_set_ns qos \<le> t1"
    using eq that by simp
  have ur: "uint ?r = min (uint (delay_max_ns qos)) (max 0 (uint (time_set_ns qos) - uint t1))"
    by (simp only: uint_clamped uint_remaining)
  show "\<exists>r. time_to_sf_qos_update_ns qos t1 = Some r \<and>
           sint r = min (uint (delay_max_ns qos)) (max 0 (uint (time_set_ns qos) - uint t1)) \<and>
           0 \<le> sint r"
    if "min (uint (delay_max_ns qos)) (max 0 (uint (time_set_ns qos) - uint t1)) < 2 ^ 31"
  proof -
    from that ur have "uint ?r < 2 ^ 31" by simp
    then have "sint ?r = uint ?r" by (simp add: sint_32)
    with eq ur show ?thesis by auto
  qed
  show "min (uint (delay_max_ns qos)) (max 0 (uint (time_set_ns qos) - uint t1)) < 2 ^ 31"
    if "uint (delay_max_ns qos) < 2 ^ 31"
    using that by simp
qed

theorem C1_time_to_update_active_witness:
  "0 <s active_count (qos_fresh\<lparr>time_set_ns := 5000, active_count := 1\<rparr>) \<and>
   uint (delay_max_ns (qos_fresh\<lparr>time_set_ns := 5000, active_count := 1\<rparr>)) < 2 ^ 31 \<and>
   (\<exists>r. time_to_sf_qos_update_ns (qos_fresh\<lparr>time_set_ns := 5000, active_count := 1\<rparr>) 2000
          = Some r \<and> sint r = 3000) \<and>
   time_set_ns c1_state \<le> 6000000000 \<and> 0 <s active_count c1_state \<and>
   time_to_sf_qos_update_ns c1_state 6000000000 = Some 0"
  using C1_time_to_update_active
    [of "qos_fresh\<lparr>time_set_ns := 5000, active_count := 1\<rparr>" 2000]
    C1_time_to_update_active [of c1_state 6000000000]
  by (auto simp: c1_state_def qos_fresh_def intel_qos_init_def qos_zeroed_def word_sless_alt)

text \<open>
  C2 (counterexample): the claim as stated fails when \<open>delay_max_ns\<close> exceeds \<open>2^31\<close>. With
  \<open>delay_max_ns = 2^32 - 1\<close>, shift 0, no outstanding begin and an anchor \<open>2^32\<close> ns in the
  past, the clamp is \<open>0xFFFFFFFF\<close>, which the cast reads as \<open>-1\<close> and the negation turns
  into \<open>+1\<close>, where the claim promises \<open>-4294967295\<close>.
\<close>

theorem C2_counterexample:
  "active_count c2_state = 0 \<and> time_clear_ns c2_state < 4294968296 \<and>
   time_to_sf_qos_update_ns c2_state 4294968296 = Some 1 \<and>
   sint (1 :: s32) = 1 \<and>
   - min (uint (delay_max_ns c2_state))
       (uint (push_bit (unat (delay_slope_shift c2_state)) (4294968296 - time_clear_ns c2_state)))
     = - 4294967295"
  by (simp add: c2_state_def qos_fresh_def intel_qos_init_def qos_zeroed_def
      time_to_sf_qos_update_ns_def shl_u64_def)

text \<open>
  C2 (amended): for every controller state with \<open>active_count = 0\<close>,
  \<open>time_to_sf_qos_update_ns\<close> returns exactly \<open>-1\<close> when the clock value \<open>t1\<close> it reads
  satisfies \<open>t1 \<le> time_clear_ns\<close>; when \<open>t1 > time_clear_ns\<close>, \<open>delay_slope_shift < 64\<close>
  and \<open>delay_max_ns \<le> 2^31 - 1\<close>, it returns
  \<open>-min(delay_max_ns, (t1 - time_clear_ns) << delay_slope_shift)\<close>, the shift being the
  64-bit one, which drops the bits beyond bit 63 (none are dropped when the shifted value
  is below \<open>2^64\<close>).
\<close>

theorem C2_time_to_update_idle:
  assumes "active_count qos = 0"
  shows "(t1 \<le> time_clear_ns qos \<longrightarrow>
            (\<exists>r. time_to_sf_qos_update_ns qos t1 = Some r \<and> sint r = - 1)) \<and>
         (time_clear_ns qos < t1 \<longrightarrow> unat (delay_slope_shift qos) < 64 \<longrightarrow>
          uint (delay_max_ns qos) < 2 ^ 31 \<longrightarrow>
            (\<exists>r. time_to_sf_qos_update_ns qos t1 = Some r \<and>
               sint r = - min (uint (delay_max_ns qos))
                  (((uint t1 - uint (time_clear_ns qos)) * 2 ^ unat (delay_slope_shift qos))
                      mod 2 ^ 64) \<and>
               ((uint t1 - uint (time_clear_ns qos)) * 2 ^ unat (delay_slope_shift qos) < 2 ^ 64
                  \<longrightarrow> sint r = - min (uint (delay_max_ns qos))
                        ((uint t1 - uint (time_clear_ns qos)) * 2 ^ unat (delay_slope_shift qos)))))"
proof (intro conjI impI)
  assume "t1 \<le> time_clear_ns qos"
  with assms have "time_to_sf_qos_update_ns qos t1 = Some (- 1)"
    by (rule time_to_idle_early)
  then show "\<exists>r. time_to_sf_qos_update_ns qos t1 = Some r \<and> sint r = - 1"
    by simp
next
  let ?n = "unat (delay_slope_shift qos)"
  let ?e = "(uint t1 - uint (time_clear_ns qos)) * 2 ^ ?n"
  let ?m = "ucast (min (ucast (delay_max_ns qos) :: u64) (push_bit ?n (t1 - time_clear_ns qos))) :: s32"
  assume late: "time_clear_ns qos < t1" and sh: "?n < 64"
    and dm: "uint (delay_max_ns qos) < 2 ^ 31"
  from assms late sh have eq: "time_to_sf_qos_update_ns qos t1 = Some (- ?m)"
    by (rule time_to_idle_late)
  have um: "uint ?m = min (uint (delay_max_ns qos)) (?e mod 2 ^ 64)"
    by (simp only: uint_clamped uint_shl_64 uint_elapsed [OF late])
  then have "uint ?m \<le> 2 ^ 31" using dm by simp
  then have sm: "sint (- ?m) = - uint ?m" by (simp add: sint_neg_32)
  have nn: "0 \<le> ?e"
    using late by (simp add: word_less_def)
  have "?e < 2 ^ 64 \<Longrightarrow> ?e mod 2 ^ 64 = ?e"
    using nn by (intro mod_pos_pos_trivial)
  with eq um sm
  show "\<exists>r. time_to_sf_qos_update_ns qos t1 = Some r \<and>
          sint r = - min (uint (delay_max_ns qos)) (?e mod 2 ^ 64) \<and>
          (?e < 2 ^ 64 \<longrightarrow> sint r = - min (uint (delay_max_ns qos)) ?e)"
    by auto
qed

theorem C2_time_to_update_idle_witness:
  "active_count qos_fresh = 0 \<and>
   time_clear_ns qos_fresh < 3000 \<and> unat (delay_slope_shift qos_fresh) < 64 \<and>
   uint (delay_max_ns qos_fresh) < 2 ^ 31 \<and>
   (\<exists>r. time_to_sf_qos_update_ns qos_fresh 3000 = Some r \<and> sint r = - 6000) \<and>
   0 \<le> time_clear_ns qos_fresh \<and>
   (\<exists>r. time_to_sf_qos_update_ns qos_fresh 0 = Some r \<and> sint r = - 1)"
  using C2_time_to_update_idle [of qos_fresh 3000] C2_time_to_update_idle [of qos_fresh 0]
  by (auto simp: qos_fresh_def intel_qos_init_def qos_zeroed_def)

text \<open>
  C6 (counterexample): the claim as stated fails for \<open>delay_max_ns = 0\<close>, which it names.
  An idle controller whose anchor \<open>time_clear_ns\<close> is not before the clock value returns
  \<open>-1\<close>, of magnitude 1, whatever \<open>delay_max_ns\<close> is.
\<close>

theorem C6_counterexample:
  "time_to_sf_qos_update_ns c6_state 5000 = Some (- 1) \<and>
   \<not> \<bar>sint (- 1 :: s32)\<bar> \<le> uint (delay_max_ns c6_state)"
  by (simp add: c6_state_def qos_fresh_def intel_qos_init_def qos_zeroed_def
      time_to_sf_qos_update_ns_def)

text \<open>
  C6 (amended): for every controller state and every clock value, the absolute value of the
  result of \<open>time_to_sf_qos_update_ns\<close> is at most \<open>max(1, delay_max_ns)\<close>, and at most
  \<open>delay_max_ns\<close> itself except for the result \<open>-1\<close> of an idle controller with
  \<open>t1 \<le> time_clear_ns\<close>. This holds for every \<open>delay_max_ns\<close> up to \<open>2^32 - 1\<close> and every
  elapsed time; a result exists whenever \<open>delay_slope_shift < 64\<close>.
\<close>

theorem C6_time_to_update_bounded:
  "(unat (delay_slope_shift qos) < 64 \<longrightarrow> (\<exists>r. time_to_sf_qos_update_ns qos t1 = Some r)) \<and>
   (\<forall>r. time_to_sf_qos_update_ns qos t1 = Some r \<longrightarrow>
      \<bar>sint r\<bar> \<le> max 1 (uint (delay_max_ns qos)) \<and>
      (active_count qos \<noteq> 0 \<or> time_clear_ns qos < t1 \<longrightarrow> \<bar>sint r\<bar> \<le> uint (delay_max_ns qos)))"
  using time_to_bound [of qos t1] time_to_defined [of qos t1]
  by (auto simp: not_le [symmetric])

theorem C6_time_to_update_bounded_witness:
  "unat (delay_slope_shift qos_fresh) < 64 \<and> time_clear_ns qos_fresh < 20000000 \<and>
   (\<exists>r. time_to_sf_qos_update_ns qos_fresh 20000000 = Some r \<and>
        \<bar>sint r\<bar> \<le> uint (delay_max_ns qos_fresh))"
  using C6_time_to_update_bounded [of qos_fresh 20000000]
  by (auto simp: qos_fresh_def intel_qos_init_def qos_zeroed_def)

section \<open>Facts about the timer and the calls of \<open>intel_qos_update\<close>\<close>

lemma time_to_req [simp]:
  "time_to_sf_qos_update_ns (qos\<lparr>req := v\<rparr>) t = time_to_sf_qos_update_ns qos t"
  by (simp add: time_to_sf_qos_update_ns_def Let_def)

lemma time_to_timer [simp]:
  "time_to_sf_qos_update_ns (qos\<lparr>timer := tm\<rparr>) t = time_to_sf_qos_update_ns qos t"
  by (simp add: time_to_sf_qos_update_ns_def Let_def)

lemma sint_0_iff_32: "sint (w :: s32) = 0 \<longleftrightarrow> w = 0"
  using uint_lt2p [of w] by (auto simp: sint_32 uint_0_iff_32)

lemma intel_qos_update_Some:
  "time_to_sf_qos_update_ns qos t = Some r \<Longrightarrow>
   intel_qos_update K qos t j =
     Some (qos\<lparr>timer := timer_reduce (timer qos) (j + nsecs_to_jiffies K (ucast (max0_s32 r)))\<rparr>)"
  by (simp add: intel_qos_update_def)

lemma timer_reduce_None [simp]: "timer_reduce None d = Some d"
  by (simp add: timer_reduce_def)

lemma timer_reduce_Some [simp]: "timer_reduce (Some p) d = Some (min p d)"
  by (simp add: timer_reduce_def min_def)

lemma time_to_positive_defined:
  assumes "time_to_sf_qos_update_ns qos t1 = Some dt" and "0 < sint dt"
  shows "\<exists>r. time_to_sf_qos_update_ns qos t2 = Some r"
proof (cases "active_count qos = 0")
  case False
  then show ?thesis by (simp add: time_to_active)
next
  case True
  show ?thesis
  proof (cases "t1 \<le> time_clear_ns qos")
    case True
    with \<open>active_count qos = 0\<close> assms show ?thesis
      by (auto simp: time_to_idle_early)
  next
    case False
    with \<open>active_count qos = 0\<close> assms(1) have "unat (delay_slope_shift qos) < 64"
      by (auto simp: time_to_sf_qos_update_ns_def Let_def shl_u64_def split: if_splits)
    then show ?thesis by (rule time_to_defined)
  qed
qed

lemma uint_ucast_abs: "uint (ucast (abs_s32 r) :: u64) = \<bar>sint r\<bar>"
  by (simp only: uint_ucast_up uint_abs_s32)

lemma uint_drop_bit_32: "uint (drop_bit n (w :: u32)) = uint w div 2 ^ n"
proof -
  have "uint (drop_bit n w) = drop_bit n (take_bit LENGTH(32) (uint w))"
    by (rule unsigned_drop_bit_eq)
  also have "take_bit LENGTH(32) (uint w) = uint w"
    by (rule take_bit_int_eq_self) (use uint_lt2p [of w] in simp_all)
  finally show ?thesis
    by (simp only: drop_bit_eq_div)
qed

section \<open>Claims about the timer callback and the two entry points\<close>

text \<open>
  C3: when \<open>intel_qos_timeout\<close> runs and its call of \<open>time_to_sf_qos_update_ns\<close> returns
  \<open>dt\<close>, the value handed to the PM QoS request is \<open>target_hz\<close> if \<open>dt = 0\<close> and the default
  value otherwise; \<open>intel_qos_update\<close> is called, and the timer thereby re-armed, exactly
  when \<open>dt > 0\<close>. Counters and timestamps are left as they were. (The hypothesis says
  that the call returns a value: every call does unless it shifts by 64 or more.)
\<close>

theorem C3_timeout:
  assumes "time_to_sf_qos_update_ns qos t1 = Some dt"
  shows "\<exists>q'. intel_qos_timeout K qos t1 t2 j = Some q' \<and>
     req q' = (if sint dt = 0 then target_hz qos else PM_QOS_DEFAULT_VALUE K) \<and>
     (target_hz qos \<noteq> PM_QOS_DEFAULT_VALUE K \<longrightarrow> (req q' = target_hz qos \<longleftrightarrow> sint dt = 0)) \<and>
     (0 < sint dt \<longrightarrow>
        Some q' = intel_qos_update K (qos\<lparr>req := req q'\<rparr>) t2 j \<and>
        (\<exists>r. time_to_sf_qos_update_ns qos t2 = Some r \<and>
           timer q' = timer_reduce (timer qos) (j + nsecs_to_jiffies K (ucast (max0_s32 r))))) \<and>
     (\<not> 0 < sint dt \<longrightarrow> timer q' = timer qos) \<and>
     (timer qos = None \<longrightarrow> (timer q' \<noteq> None \<longleftrightarrow> 0 < sint dt)) \<and>
     time_set_ns q' = time_set_ns qos \<and> time_clear_ns q' = time_clear_ns qos \<and>
     active_count q' = active_count qos"
proof -
  let ?v = "if dt = 0 then target_hz qos else PM_QOS_DEFAULT_VALUE K"
  have z: "(sint dt = 0) = (dt = 0)" by (rule sint_0_iff_32)
  show ?thesis
  proof (cases "0 < sint dt")
    case True
    with assms obtain r where r: "time_to_sf_qos_update_ns qos t2 = Some r"
      using time_to_positive_defined by blast
    then have "intel_qos_update K (qos\<lparr>req := ?v\<rparr>) t2 j =
        Some (qos\<lparr>req := ?v, timer := timer_reduce (timer qos)
                 (j + nsecs_to_jiffies K (ucast (max0_s32 r)))\<rparr>)"
      by (simp add: intel_qos_update_Some)
    with True assms r show ?thesis
      by (simp add: intel_qos_timeout_def word_sless_alt z)
  next
    case False
    with assms show ?thesis
      by (simp add: intel_qos_timeout_def word_sless_alt z)
  qed
qed

text \<open>
  C3 (witness): a controller with one outstanding begin whose deadline is 3000 ns ahead
  (default value, timer re-armed) and the same controller 1000 ns after the deadline
  (\<open>target_hz\<close>, timer untouched).
\<close>

theorem C3_timeout_witness:
  "(\<exists>dt. time_to_sf_qos_update_ns (qos_fresh\<lparr>time_set_ns := 5000, active_count := 1\<rparr>) 2000 = Some dt
         \<and> 0 < sint dt) \<and>
   (\<exists>q'. intel_qos_timeout example_env (qos_fresh\<lparr>time_set_ns := 5000, active_count := 1\<rparr>)
            2000 2100 7 = Some q' \<and>
         req q' = PM_QOS_DEFAULT_VALUE example_env \<and> timer q' = Some 7) \<and>
   time_to_sf_qos_update_ns (qos_fresh\<lparr>time_set_ns := 5000, active_count := 1\<rparr>) 6000 = Some 0 \<and>
   (\<exists>q'. intel_qos_timeout example_env (qos_fresh\<lparr>time_set_ns := 5000, active_count := 1\<rparr>)
            6000 6100 7 = Some q' \<and>
         req q' = 2 \<and> timer q' = None)"
  using C3_timeout [of "qos_fresh\<lparr>time_set_ns := 5000, active_count := 1\<rparr>" 2000 3000
          example_env 2100 7]
        C3_timeout [of "qos_fresh\<lparr>time_set_ns := 5000, active_count := 1\<rparr>" 6000 0
          example_env 6100 7]
  by (auto simp: qos_fresh_def intel_qos_init_def qos_zeroed_def example_env_def
        time_to_sf_qos_update_ns_def max0_s32_def word_sless_alt)

text \<open>
  C4: every call of \<open>intel_qos_overload_begin\<close> whose first call of
  \<open>time_to_sf_qos_update_ns\<close> returns \<open>dt\<close> stores \<open>now + |dt|\<close> (64-bit addition, \<open>now\<close> read
  after \<open>dt\<close> was computed) in \<open>time_set_ns\<close> and then increments \<open>active_count\<close>; it calls
  \<open>intel_qos_update\<close> exactly when the value before the increment was 0, and a nested
  call leaves the timer alone.
\<close>

theorem C4_overload_begin:
  assumes "time_to_sf_qos_update_ns qos ta = Some dt"
  shows "\<exists>q'. intel_qos_overload_begin K qos ta tb tc j = Some q' \<and>
     time_set_ns q' = tb + ucast (abs_s32 dt) \<and>
     uint (time_set_ns q') = (uint tb + \<bar>sint dt\<bar>) mod 2 ^ 64 \<and>
     active_count q' = active_count qos + 1 \<and>
     (active_count qos = 0 \<longrightarrow>
        Some q' = intel_qos_update K
                    (qos\<lparr>time_set_ns := tb + ucast (abs_s32 dt), active_count := 1\<rparr>) tc j \<and>
        (\<exists>r. time_to_sf_qos_update_ns
                (qos\<lparr>time_set_ns := tb + ucast (abs_s32 dt), active_count := 1\<rparr>) tc = Some r \<and>
             timer q' = timer_reduce (timer qos) (j + nsecs_to_jiffies K (ucast (max0_s32 r))))) \<and>
     (active_count qos \<noteq> 0 \<longrightarrow> timer q' = timer qos) \<and>
     (timer qos = None \<longrightarrow> (timer q' \<noteq> None \<longleftrightarrow> active_count qos = 0)) \<and>
     req q' = req qos \<and> time_clear_ns q' = time_clear_ns qos"
proof -
  let ?q1 = "qos\<lparr>time_set_ns := tb + ucast (abs_s32 dt), active_count := active_count qos + 1\<rparr>"
  have u: "uint (tb + ucast (abs_s32 dt)) = (uint tb + \<bar>sint dt\<bar>) mod 2 ^ 64"
    by (simp add: uint_word_ariths uint_ucast_abs)
  show ?thesis
  proof (cases "active_count qos = 0")
    case True
    then have "active_count ?q1 \<noteq> 0" by simp
    then obtain r where r: "time_to_sf_qos_update_ns ?q1 tc = Some r"
      by (simp add: time_to_active)
    then have "intel_qos_update K ?q1 tc j =
        Some (?q1\<lparr>timer := timer_reduce (timer ?q1) (j + nsecs_to_jiffies K (ucast (max0_s32 r)))\<rparr>)"
      by (rule intel_qos_update_Some)
    with True assms r u show ?thesis
      by (simp add: intel_qos_overload_begin_def Let_def)
  next
    case False
    with assms u show ?thesis
      by (simp add: intel_qos_overload_begin_def Let_def)
  qed
qed

text \<open>
  C4 (witness): the first begin on a freshly initialised controller, one second after
  boot.
\<close>

theorem C4_overload_begin_witness:
  "time_to_sf_qos_update_ns qos_fresh 1000000000 = Some (- 10000000) \<and>
   (\<exists>q'. intel_qos_overload_begin example_env qos_fresh 1000000000 1000000010 1000000020 250
            = Some q' \<and>
         time_set_ns q' = 1010000010 \<and> active_count q' = 1 \<and> timer q' = Some 252)"
  using C4_overload_begin [of qos_fresh 1000000000 "- 10000000" example_env
          1000000010 1000000020 250]
  by (auto simp: qos_fresh_def intel_qos_init_def qos_zeroed_def example_env_def
        time_to_sf_qos_update_ns_def shl_u64_def abs_s32_def max0_s32_def word_sless_alt)

text \<open>
  C5 (counterexample): the claim as stated fails for \<open>delay_slope_shift = 32\<close>. On a busy
  controller \<open>time_to_sf_qos_update_ns\<close> returns \<open>dt = 9999010\<close>, and the store then evaluates
  \<open>dt >> 32\<close> on the 32-bit \<open>dt\<close>, which C leaves undefined: the call has no defined
  result, where the claim promises \<open>time_clear_ns = now - (|dt| >> 32)\<close>.
\<close>

theorem C5_counterexample:
  "unat (delay_slope_shift c5_state) = 32 \<and>
   time_to_sf_qos_update_ns c5_state 1000001000 = Some 9999010 \<and>
   shr_u32 (abs_s32 9999010) (delay_slope_shift c5_state) = None \<and>
   intel_qos_overload_end example_env c5_state 1000001000 1000001010 1000001020 250 = None"
  by (simp add: c5_state_def qos_busy_def qos_fresh_def intel_qos_init_def qos_zeroed_def
        example_env_def intel_qos_overload_end_def time_to_sf_qos_update_ns_def shr_u32_def
        abs_s32_def word_sless_alt)

text \<open>
  C5 (amended): every call of \<open>intel_qos_overload_end\<close> with \<open>delay_slope_shift < 32\<close> whose
  first call of \<open>time_to_sf_qos_update_ns\<close> returns \<open>dt\<close> stores
  \<open>now - (|dt| >> delay_slope_shift)\<close> (64-bit subtraction, \<open>now\<close> read after \<open>dt\<close> was
  computed) in \<open>time_clear_ns\<close> and then decrements \<open>active_count\<close>; it calls
  \<open>intel_qos_update\<close> exactly when the value after the decrement is 0.
\<close>

theorem C5_overload_end:
  assumes "time_to_sf_qos_update_ns qos ta = Some dt"
    and "unat (delay_slope_shift qos) < 32"
  shows "\<exists>q'. intel_qos_overload_end K qos ta tb tc j = Some q' \<and>
     time_clear_ns q' = tb - ucast (drop_bit (unat (delay_slope_shift qos)) (abs_s32 dt)) \<and>
     uint (time_clear_ns q') =
        (uint tb - \<bar>sint dt\<bar> div 2 ^ unat (delay_slope_shift qos)) mod 2 ^ 64 \<and>
     active_count q' = active_count qos - 1 \<and>
     (active_count q' = 0 \<longrightarrow>
        Some q' = intel_qos_update K
                    (qos\<lparr>time_clear_ns := time_clear_ns q', active_count := 0\<rparr>) tc j \<and>
        (\<exists>r. time_to_sf_qos_update_ns
                (qos\<lparr>time_clear_ns := time_clear_ns q', active_count := 0\<rparr>) tc = Some r \<and>
             timer q' = timer_reduce (timer qos) (j + nsecs_to_jiffies K (ucast (max0_s32 r))))) \<and>
     (active_count q' \<noteq> 0 \<longrightarrow> timer q' = timer qos) \<and>
     (timer qos = None \<longrightarrow> (timer q' \<noteq> None \<longleftrightarrow> active_count q' = 0)) \<and>
     req q' = req qos \<and> time_set_ns q' = time_set_ns qos"
proof -
  let ?n = "unat (delay_slope_shift qos)"
  let ?c = "tb - ucast (drop_bit ?n (abs_s32 dt))"
  let ?q1 = "qos\<lparr>time_clear_ns := ?c, active_count := active_count qos - 1\<rparr>"
  have u: "uint ?c = (uint tb - \<bar>sint dt\<bar> div 2 ^ ?n) mod 2 ^ 64"
    by (simp add: uint_word_ariths uint_ucast_up uint_drop_bit_32 uint_abs_s32)
  have sh: "shr_u32 (abs_s32 dt) (delay_slope_shift qos) = Some (drop_bit ?n (abs_s32 dt))"
    using assms(2) by (simp add: shr_u32_def)
  show ?thesis
  proof (cases "active_count qos - 1 = 0")
    case True
    from assms(2) have "unat (delay_slope_shift ?q1) < 64" by simp
    then obtain r where r: "time_to_sf_qos_update_ns ?q1 tc = Some r"
      using time_to_defined by blast
    then have "intel_qos_update K ?q1 tc j =
        Some (?q1\<lparr>timer := timer_reduce (timer ?q1) (j + nsecs_to_jiffies K (ucast (max0_s32 r)))\<rparr>)"
      by (rule intel_qos_update_Some)
    with True assms(1) sh r u show ?thesis
      by (simp add: intel_qos_overload_end_def Let_def)
  next
    case False
    with assms(1) sh u show ?thesis
      by (simp add: intel_qos_overload_end_def Let_def)
  qed
qed

text \<open>
  C5 (witness): the end that matches the begin of the previous witness, 1000 ns later.
\<close>

theorem C5_overload_end_witness:
  "time_to_sf_qos_update_ns qos_busy 1000001000 = Some 9999010 \<and>
   unat (delay_slope_shift qos_busy) < 32 \<and>
   (\<exists>q'. intel_qos_overload_end example_env qos_busy 1000001000 1000001010 1000001020 250
            = Some q' \<and>
         time_clear_ns q' = 995001505 \<and> active_count q' = 0 \<and> timer q' = Some 250)"
  using C5_overload_end [of qos_busy 1000001000 9999010 example_env
          1000001010 1000001020 250]
  by (auto simp: qos_busy_def qos_fresh_def intel_qos_init_def qos_zeroed_def example_env_def
        time_to_sf_qos_update_ns_def shl_u64_def abs_s32_def max0_s32_def word_sless_alt)

text \<open>
  C9 (counterexample): \<open>intel_qos_overload_end\<close> on a freshly initialised controller,
  which has no outstanding begin. The counter goes from 0 to \<open>0xFFFFFFFF\<close>, that is -1, and
  apart from \<open>time_clear_ns\<close> nothing else in the controller changes: the count neither
  saturates at zero nor is the violation recorded anywhere.
\<close>

theorem C9_counterexample:
  "active_count qos_fresh = 0 \<and>
   intel_qos_overload_end example_env qos_fresh 5000 5000 5000 1 =
     Some (qos_fresh\<lparr>time_clear_ns := 0, active_count := 0xFFFFFFFF\<rparr>) \<and>
   (0xFFFFFFFF :: s32) \<noteq> 0 \<and> sint (0xFFFFFFFF :: s32) = - 1"
  by (simp add: qos_fresh_def intel_qos_init_def qos_zeroed_def example_env_def
        intel_qos_overload_end_def
        time_to_sf_qos_update_ns_def shl_u64_def shr_u32_def abs_s32_def word_sless_alt)

text \<open>
  C9 (amended): an \<open>intel_qos_overload_end\<close> without a matching begin is not detected.
  Whenever such a call returns, and it does for every \<open>delay_slope_shift < 32\<close> (a larger
  count is undefined for the 32-bit shift of the call), the counter has been decremented
  from 0 to -1 (\<open>0xFFFFFFFF\<close>, not zero); only \<open>time_clear_ns\<close> and \<open>active_count\<close> have
  changed, the timer is not touched, and from then on \<open>time_to_sf_qos_update_ns\<close> takes the
  branch of a busy controller.
\<close>

theorem C9_unmatched_end:
  assumes "active_count qos = 0"
  shows "(unat (delay_slope_shift qos) < 32 \<longrightarrow>
           (\<exists>q'. intel_qos_overload_end K qos ta tb tc j = Some q')) \<and>
     (\<forall>q'. intel_qos_overload_end K qos ta tb tc j = Some q' \<longrightarrow>
        active_count q' = - 1 \<and> sint (active_count q') = - 1 \<and> active_count q' \<noteq> 0 \<and>
        q' = qos\<lparr>time_clear_ns := time_clear_ns q', active_count := - 1\<rparr> \<and>
        (\<forall>t. time_to_sf_qos_update_ns q' t =
            Some (ucast (min (ucast (delay_max_ns qos) :: u64)
                     (if time_set_ns qos \<le> t then 0 else time_set_ns qos - t)))))"
proof -
  have defined: "\<exists>q'. intel_qos_overload_end K qos ta tb tc j = Some q'"
    if sh: "unat (delay_slope_shift qos) < 32"
  proof -
    from sh have "unat (delay_slope_shift qos) < 64" by simp
    then obtain dt where dt: "time_to_sf_qos_update_ns qos ta = Some dt"
      using time_to_defined by blast
    have "shr_u32 (abs_s32 dt) (delay_slope_shift qos) =
        Some (drop_bit (unat (delay_slope_shift qos)) (abs_s32 dt))"
      using sh by (simp add: shr_u32_def)
    with assms dt show ?thesis
      by (simp add: intel_qos_overload_end_def Let_def)
  qed
  have result: "active_count q' = - 1 \<and> sint (active_count q') = - 1 \<and> active_count q' \<noteq> 0 \<and>
        q' = qos\<lparr>time_clear_ns := time_clear_ns q', active_count := - 1\<rparr> \<and>
        (\<forall>t. time_to_sf_qos_update_ns q' t =
            Some (ucast (min (ucast (delay_max_ns qos) :: u64)
                     (if time_set_ns qos \<le> t then 0 else time_set_ns qos - t))))"
    if e: "intel_qos_overload_end K qos ta tb tc j = Some q'" for q'
  proof -
    from e obtain c where q': "q' = qos\<lparr>time_clear_ns := c, active_count := - 1\<rparr>"
      using assms
      by (auto simp: intel_qos_overload_end_def Let_def split: option.splits)
    then have "active_count q' \<noteq> 0" by simp
    then have "\<forall>t. time_to_sf_qos_update_ns q' t =
            Some (ucast (min (ucast (delay_max_ns q') :: u64)
                     (if time_set_ns q' \<le> t then 0 else time_set_ns q' - t)))"
      using time_to_active by blast
    with q' show ?thesis by simp
  qed
  from defined result show ?thesis by blast
qed

theorem C9_unmatched_end_witness:
  "active_count qos_fresh = 0 \<and> unat (delay_slope_shift qos_fresh) < 32 \<and>
   (\<exists>q'. intel_qos_overload_end example_env qos_fresh 5000 5000 5000 1 = Some q' \<and>
      sint (active_count q') = - 1)"
  using C9_unmatched_end [of qos_fresh example_env 5000 5000 5000 1]
  by (auto simp: qos_fresh_def intel_qos_init_def qos_zeroed_def)

section \<open>The two controllers\<close>

lemma time_to_rf_sf:
  "same_controller gt qos \<Longrightarrow> time_to_rf_qos_update_ns gt t = time_to_sf_qos_update_ns qos t"
  by (simp add: same_controller_def time_to_rf_qos_update_ns_def time_to_sf_qos_update_ns_def Let_def)

lemma update_rf_sf:
  "same_controller gt qos \<Longrightarrow>
   rel_option same_controller (intel_gt_rf_qos_update K gt t j) (intel_qos_update K qos t j)"
  by (simp add: intel_gt_rf_qos_update_def intel_qos_update_def time_to_rf_sf Let_def
        split: option.splits)
     (simp add: same_controller_def)

text \<open>
  C10: the functions of \<open>intel_gt_pm.c\<close> and those of the scaling-response controller
  compute the same. On controllers with equal configuration, counters, timestamps, timer
  and requested value, and with equal clock and jiffies readings,
  \<open>time_to_rf_qos_update_ns\<close> returns what \<open>time_to_sf_qos_update_ns\<close> returns, and update,
  timeout, begin and end either are both undefined or lead to controllers that are equal
  again, the value handed to the PM QoS request included.
\<close>

theorem C10_rf_sf_equivalent:
  assumes "same_controller gt qos"
  shows "time_to_rf_qos_update_ns gt t = time_to_sf_qos_update_ns qos t \<and>
     rel_option same_controller (intel_gt_rf_qos_update K gt t j) (intel_qos_update K qos t j) \<and>
     rel_option same_controller
        (intel_gt_rf_qos_timeout K gt t t2 j) (intel_qos_timeout K qos t t2 j) \<and>
     rel_option same_controller
        (intel_gt_pm_active_begin K gt t tb tc j) (intel_qos_overload_begin K qos t tb tc j) \<and>
     rel_option same_controller
        (intel_gt_pm_active_end K gt t tb tc j) (intel_qos_overload_end K qos t tb tc j)"
proof (intro conjI)
  show "time_to_rf_qos_update_ns gt t = time_to_sf_qos_update_ns qos t"
    using assms by (rule time_to_rf_sf)
  show "rel_option same_controller (intel_gt_rf_qos_update K gt t j) (intel_qos_update K qos t j)"
    using assms by (rule update_rf_sf)
  show "rel_option same_controller
        (intel_gt_rf_qos_timeout K gt t t2 j) (intel_qos_timeout K qos t t2 j)"
  proof (cases "time_to_sf_qos_update_ns qos t")
    case None
    with assms show ?thesis
      by (simp add: intel_gt_rf_qos_timeout_def intel_qos_timeout_def time_to_rf_sf)
  next
    case (Some dt)
    have a: "same_controller (gt\<lparr>rf_qos_req := v\<rparr>) (qos\<lparr>req := v\<rparr>)" for v
      using assms by (simp add: same_controller_def)
    have t: "rf_qos_target_hz gt = target_hz qos"
      using assms by (simp add: same_controller_def)
    show ?thesis
      using Some assms a update_rf_sf [OF a]
      by (simp add: intel_gt_rf_qos_timeout_def intel_qos_timeout_def time_to_rf_sf t Let_def)
  qed
  show "rel_option same_controller
        (intel_gt_pm_active_begin K gt t tb tc j) (intel_qos_overload_begin K qos t tb tc j)"
  proof (cases "time_to_sf_qos_update_ns qos t")
    case None
    with assms show ?thesis
      by (simp add: intel_gt_pm_active_begin_def intel_qos_overload_begin_def time_to_rf_sf)
  next
    case (Some r)
    have a: "same_controller
        (gt\<lparr>rf_qos_time_set_ns := x, rf_qos_active_count := c\<rparr>)
        (qos\<lparr>time_set_ns := x, active_count := c\<rparr>)" for x c
      using assms by (simp add: same_controller_def)
    have c: "rf_qos_active_count gt = active_count qos"
      using assms by (simp add: same_controller_def)
    show ?thesis
      using Some assms a update_rf_sf [OF a]
      by (simp add: intel_gt_pm_active_begin_def intel_qos_overload_begin_def time_to_rf_sf c
            Let_def)
  qed
  show "rel_option same_controller
        (intel_gt_pm_active_end K gt t tb tc j) (intel_qos_overload_end K qos t tb tc j)"
  proof (cases "time_to_sf_qos_update_ns qos t")
    case None
    with assms show ?thesis
      by (simp add: intel_gt_pm_active_end_def intel_qos_overload_end_def time_to_rf_sf)
  next
    case (Some r)
    have a: "same_controller
        (gt\<lparr>rf_qos_time_clear_ns := x, rf_qos_active_count := c\<rparr>)
        (qos\<lparr>time_clear_ns := x, active_count := c\<rparr>)" for x c
      using assms by (simp add: same_controller_def)
    have c: "rf_qos_active_count gt = active_count qos"
       "rf_qos_delay_slope_shift gt = delay_slope_shift qos"
      using assms by (simp_all add: same_controller_def)
    show ?thesis
      using Some assms a update_rf_sf [OF a]
      by (simp add: intel_gt_pm_active_end_def intel_qos_overload_end_def time_to_rf_sf c
            Let_def split: option.splits)
  qed
qed

theorem C10_rf_sf_equivalent_witness:
  "same_controller gt_fresh qos_like_gt \<and>
   time_to_rf_qos_update_ns gt_fresh 1000000000 = Some (- 250000) \<and>
   time_to_sf_qos_update_ns qos_like_gt 1000000000 = Some (- 250000) \<and>
   rel_option same_controller
     (intel_gt_pm_active_begin example_env gt_fresh 1000000000 1000000010 1000000020 250)
     (intel_qos_overload_begin example_env qos_like_gt 1000000000 1000000010 1000000020 250)"
  using C10_rf_sf_equivalent [of gt_fresh qos_like_gt 1000000000 example_env 250 1000000030
     1000000010 1000000020]
  by (auto simp: same_controller_def gt_fresh_def gt_zeroed_def intel_gt_pm_init_early_def
        qos_like_gt_def qos_fresh_def intel_qos_init_def qos_zeroed_def
        time_to_sf_qos_update_ns_def shl_u64_def)

section \<open>The timer keeps the soonest expiry\<close>

lemma intel_qos_update_timer:
  "intel_qos_update_expires K qos t1 j = Some d \<Longrightarrow>
   intel_qos_update K (qos\<lparr>timer := tm\<rparr>) t1 j = Some (qos\<lparr>timer := timer_reduce tm d\<rparr>)"
  by (auto simp: intel_qos_update_expires_def intel_qos_update_def split: option.splits)

lemma intel_qos_updates_foldl:
  "list_all2 (\<lambda>(qos, t1, j) d. intel_qos_update_expires K qos t1 j = Some d) cs ds \<Longrightarrow>
   intel_qos_updates K tm cs = Some (foldl timer_reduce tm ds)"
proof (induction cs ds arbitrary: tm rule: list_all2_induct)
  case Nil
  then show ?case by simp
next
  case (Cons c cs d ds)
  obtain qos t1 j where c: "c = (qos, t1, j)" by (cases c)
  with Cons.hyps(1) have "intel_qos_update_expires K qos t1 j = Some d" by simp
  then show ?case
    by (simp add: c intel_qos_update_timer Cons.IH)
qed

lemma foldl_timer_reduce_Some:
  "foldl timer_reduce (Some p) ds = Some (Min (insert p (set ds)))"
proof (induction ds arbitrary: p)
  case Nil
  then show ?case by simp
next
  case (Cons d ds)
  have "Min (insert (min p d) (set ds)) = Min (insert p (insert d (set ds)))"
    by (cases "set ds = {}") (simp_all add: min.assoc)
  with Cons show ?case by simp
qed

lemma foldl_timer_reduce_None:
  "ds \<noteq> [] \<Longrightarrow> foldl timer_reduce None ds = Some (Min (set ds))"
  by (cases ds) (simp_all add: foldl_timer_reduce_Some)

text \<open>
  C8: take any sequence of calls of \<open>intel_qos_update\<close> on one timer, and let \<open>ds\<close> be the
  expiries the calls ask for. If the timer was not pending before the first call (it had
  fired), it is afterwards pending at the minimum of \<open>ds\<close>; if it was pending at \<open>p\<close>, it is
  pending at the minimum of \<open>p\<close> and \<open>ds\<close>, and calls that all ask for \<open>p\<close> or later leave it at
  \<open>p\<close>.
\<close>

theorem C8_timer_holds_soonest_expiry:
  assumes "list_all2 (\<lambda>(qos, t1, j) d. intel_qos_update_expires K qos t1 j = Some d) cs ds"
  shows "(ds \<noteq> [] \<longrightarrow> intel_qos_updates K None cs = Some (Some (Min (set ds)))) \<and>
         intel_qos_updates K (Some p) cs = Some (Some (Min (insert p (set ds)))) \<and>
         ((\<forall>d \<in> set ds. p \<le> d) \<longrightarrow> intel_qos_updates K (Some p) cs = Some (Some p))"
proof -
  have run: "intel_qos_updates K tm cs = Some (foldl timer_reduce tm ds)" for tm
    using assms by (rule intel_qos_updates_foldl)
  have "Min (insert p (set ds)) = p" if "\<forall>d \<in> set ds. p \<le> d"
    using that by (intro Min_eqI) auto
  then show ?thesis
    by (simp add: run foldl_timer_reduce_Some foldl_timer_reduce_None)
qed

theorem C8_timer_holds_soonest_expiry_witness:
  "list_all2 (\<lambda>(qos, t1, j) d. intel_qos_update_expires example_env qos t1 j = Some d)
     [(qos_busy, 1000000020, 250), (qos_busy, 1004000020, 251), (qos_fresh, 1004000030, 251)]
     [252, 252, 251] \<and>
   intel_qos_updates example_env None
     [(qos_busy, 1000000020, 250), (qos_busy, 1004000020, 251), (qos_fresh, 1004000030, 251)]
     = Some (Some 251) \<and>
   intel_qos_updates example_env (Some 100)
     [(qos_busy, 1000000020, 250), (qos_busy, 1004000020, 251), (qos_fresh, 1004000030, 251)]
     = Some (Some 100)"
  using C8_timer_holds_soonest_expiry [of example_env
     "[(qos_busy, 1000000020, 250), (qos_busy, 1004000020, 251), (qos_fresh, 1004000030, 251)]"
     "[252, 252, 251]" 100]
  by (auto simp: intel_qos_update_expires_def qos_busy_def qos_fresh_def intel_qos_init_def
        qos_zeroed_def example_env_def time_to_sf_qos_update_ns_def shl_u64_def max0_s32_def
        word_sless_alt)

section \<open>A burst shorter than the commit delay\<close>

subsection \<open>The loads of the timer thread\<close>

lemma time_to_loaded_eq:
  "time_to_sf_qos_update_ns qos t =
     time_to_loaded qos t (active_count qos) (load_stamp qos (active_count qos))"
  by (simp add: time_to_sf_qos_update_ns_def time_to_loaded_def load_stamp_def Let_def)

lemma time_to_same_fields:
  assumes "active_count q' = active_count q" "time_set_ns q' = time_set_ns q"
    "time_clear_ns q' = time_clear_ns q" "delay_max_ns q' = delay_max_ns q"
    "delay_slope_shift q' = delay_slope_shift q"
  shows "time_to_sf_qos_update_ns q' t = time_to_sf_qos_update_ns q t"
  using assms by (simp add: time_to_sf_qos_update_ns_def Let_def)

lemma time_to_loaded_defined:
  "unat (delay_slope_shift qos) < 64 \<Longrightarrow> \<exists>r. time_to_loaded qos t1 c t0 = Some r"
  by (simp add: time_to_loaded_def Let_def shl_u64_def)

lemma ucast_clamped_0_iff:
  "(ucast (min (ucast (d :: u32) :: u64) x) :: u32) = 0 \<longleftrightarrow> d = 0 \<or> x = 0"
proof -
  have "(ucast (min (ucast d :: u64) x) :: u32) = 0 \<longleftrightarrow> min (uint d) (uint x) = 0"
    by (simp add: word_uint_eq_iff [of _ "0 :: u32"] uint_clamped del: uint_0_eq)
  also have "\<dots> \<longleftrightarrow> uint d = 0 \<or> uint x = 0"
    by (auto simp: min_def)
  also have "\<dots> \<longleftrightarrow> d = 0 \<or> x = 0"
    by (simp add: word_uint_eq_iff)
  finally show ?thesis .
qed

lemma time_to_loaded_raised:
  assumes "c \<noteq> 0" and "delay_max_ns qos \<noteq> 0" and "uint t1 < uint t0"
  shows "\<exists>dt. time_to_loaded qos t1 c t0 = Some dt \<and> dt \<noteq> 0"
proof -
  from assms(3) have "\<not> t0 \<le> t1" "t0 - t1 \<noteq> 0"
    by (auto simp: word_le_def)
  with assms(1,2) show ?thesis
    by (simp add: time_to_loaded_def Let_def ucast_clamped_0_iff)
qed

lemma time_to_loaded_idle:
  assumes "delay_max_ns qos \<noteq> 0" and "unat (delay_slope_shift qos) < 64"
    and nowrap: "uint t1 * 2 ^ unat (delay_slope_shift qos) < 2 ^ 64"
  shows "\<exists>dt. time_to_loaded qos t1 0 t0 = Some dt \<and> dt \<noteq> 0"
proof (cases "t1 \<le> t0")
  case True
  then show ?thesis by (simp add: time_to_loaded_def Let_def)
next
  case False
  then have late: "t0 < t1" by simp
  let ?n = "unat (delay_slope_shift qos)"
  let ?e = "(uint t1 - uint t0) * 2 ^ ?n"
  have pos: "1 \<le> uint t1 - uint t0"
    using late by (simp add: word_less_def)
  have "1 * 1 \<le> ?e"
    using pos by (intro mult_mono) simp_all
  then have e1: "1 \<le> ?e" by simp
  have "?e \<le> uint t1 * 2 ^ ?n"
    by (intro mult_right_mono) simp_all
  from this nowrap have "?e < 2 ^ 64" by (rule le_less_trans)
  with e1 have "?e mod 2 ^ 64 = ?e"
    by (intro mod_pos_pos_trivial) simp_all
  then have "uint (push_bit ?n (t1 - t0)) = ?e"
    by (simp only: uint_shl_64 uint_elapsed [OF late])
  with e1 have "push_bit ?n (t1 - t0) \<noteq> 0"
    by (auto simp: word_uint_eq_iff)
  with False assms(1,2) show ?thesis
    by (simp add: time_to_loaded_def Let_def shl_u64_def ucast_clamped_0_iff)
qed

lemma timer_frame_refl: "timer_frame s s"
  by (simp add: timer_frame_def)

lemma timer_frame_trans: "timer_frame s s' \<Longrightarrow> timer_frame s' s'' \<Longrightarrow> timer_frame s s''"
  by (simp add: timer_frame_def)

lemma timer_turn:
  assumes inv: "callback_inv d s"
    and dm: "delay_max_ns (ctl s) \<noteq> 0"
    and sh: "unat (delay_slope_shift (ctl s)) < 64"
    and iss: "\<forall>v \<in> set (issued s). v = PM_QOS_DEFAULT_VALUE K"
    and nowrap: "active_count (ctl s) = 0 \<longrightarrow>
                   uint t * 2 ^ unat (delay_slope_shift (ctl s)) < 2 ^ 64"
    and before: "active_count (ctl s) \<noteq> 0 \<longrightarrow> uint t < uint d"
  shows "\<exists>s'. timer_step K s t j = Some s' \<and> callback_inv d s' \<and> timer_frame s s' \<and>
           (\<forall>v \<in> set (issued s'). v = PM_QOS_DEFAULT_VALUE K)"
proof (cases "callback s")
  case Timer_idle
  with inv iss show ?thesis
    by (simp add: timer_step_def callback_inv_def timer_frame_def)
next
  case Timeout_count
  with inv iss nowrap before show ?thesis
    by (simp add: timer_step_def callback_inv_def timer_frame_def)
next
  case (Timeout_stamp t1 c)
  with inv have t1: "c = 0 \<longrightarrow> uint t1 * 2 ^ unat (delay_slope_shift (ctl s)) < 2 ^ 64"
    and c: "c \<noteq> 0 \<longrightarrow> time_set_ns (ctl s) = d \<and> uint t1 < uint d"
    by (simp_all add: callback_inv_def)
  have "\<exists>dt. time_to_loaded (ctl s) t1 c (load_stamp (ctl s) c) = Some dt \<and> dt \<noteq> 0"
  proof (cases "c = 0")
    case True
    with dm sh t1 show ?thesis by (simp add: time_to_loaded_idle)
  next
    case False
    with c have "uint t1 < uint (load_stamp (ctl s) c)" by (simp add: load_stamp_def)
    with False dm show ?thesis by (intro time_to_loaded_raised)
  qed
  then obtain dt where "time_to_loaded (ctl s) t1 c (load_stamp (ctl s) c) = Some dt" "dt \<noteq> 0"
    by blast
  with Timeout_stamp inv iss show ?thesis
    by (simp add: timer_step_def callback_inv_def timer_frame_def)
next
  case (Timeout_req dt)
  with inv have "dt \<noteq> 0" by (simp add: callback_inv_def)
  with Timeout_req inv iss show ?thesis
    by (simp add: timer_step_def callback_inv_def timer_frame_def Let_def)
next
  case Update_count
  with inv iss show ?thesis
    by (simp add: timer_step_def callback_inv_def timer_frame_def)
next
  case (Update_stamp t1 c)
  from sh obtain r where "time_to_loaded (ctl s) t1 c (load_stamp (ctl s) c) = Some r"
    using time_to_loaded_defined by blast
  with Update_stamp inv iss show ?thesis
    by (simp add: timer_step_def callback_inv_def timer_frame_def)
next
  case (Update_timer r)
  with inv iss show ?thesis
    by (simp add: timer_step_def callback_inv_def timer_frame_def)
qed

lemma timer_turns:
  assumes "callback_inv d s"
    and "delay_max_ns (ctl s) \<noteq> 0"
    and "unat (delay_slope_shift (ctl s)) < 64"
    and "\<forall>v \<in> set (issued s). v = PM_QOS_DEFAULT_VALUE K"
    and "active_count (ctl s) = 0 \<longrightarrow>
           (\<forall>(t, j) \<in> set rs. uint t * 2 ^ unat (delay_slope_shift (ctl s)) < 2 ^ 64)"
    and "active_count (ctl s) \<noteq> 0 \<longrightarrow> (\<forall>(t, j) \<in> set rs. uint t < uint d)"
  shows "\<exists>s'. run K s (timers rs) = Some s' \<and> callback_inv d s' \<and> timer_frame s s' \<and>
           (\<forall>v \<in> set (issued s'). v = PM_QOS_DEFAULT_VALUE K)"
  using assms
proof (induction rs arbitrary: s)
  case Nil
  then show ?case by (simp add: timers_def timer_frame_refl)
next
  case (Cons r rs)
  obtain t j where r: "r = (t, j)" by (cases r)
  have "\<exists>s'. timer_step K s t j = Some s' \<and> callback_inv d s' \<and> timer_frame s s' \<and>
           (\<forall>v \<in> set (issued s'). v = PM_QOS_DEFAULT_VALUE K)"
    using Cons.prems r by (intro timer_turn) auto
  then obtain s1 where s1: "timer_step K s t j = Some s1" "callback_inv d s1"
    "timer_frame s s1" "\<forall>v \<in> set (issued s1). v = PM_QOS_DEFAULT_VALUE K"
    by blast
  from s1(3) have same: "delay_max_ns (ctl s1) = delay_max_ns (ctl s)"
    "delay_slope_shift (ctl s1) = delay_slope_shift (ctl s)"
    "active_count (ctl s1) = active_count (ctl s)"
    by (simp_all add: timer_frame_def)
  have "\<exists>s'. run K s1 (timers rs) = Some s' \<and> callback_inv d s' \<and> timer_frame s1 s' \<and>
           (\<forall>v \<in> set (issued s'). v = PM_QOS_DEFAULT_VALUE K)"
    using Cons.prems s1 same by (intro Cons.IH) auto
  then obtain s' where s': "run K s1 (timers rs) = Some s'" "callback_inv d s'"
    "timer_frame s1 s'" "\<forall>v \<in> set (issued s'). v = PM_QOS_DEFAULT_VALUE K"
    by blast
  have "run K s (timers (r # rs)) = Some s'"
    using s1(1) s'(1) by (simp add: timers_def r)
  with s' s1(3) show ?case
    by (blast intro: timer_frame_trans)
qed

lemma run_append:
  "run K s (xs @ ys) = (case run K s xs of None \<Rightarrow> None | Some s' \<Rightarrow> run K s' ys)"
  by (induction xs arbitrary: s) (auto split: option.splits)

subsection \<open>The steps of the caller\<close>

lemma stage_timers:
  assumes st: "stage K q0 d pc es n s"
    and dm: "delay_max_ns q0 \<noteq> 0" and sh: "unat (delay_slope_shift q0) < 32"
    and nowrap: "n = 0 \<longrightarrow>
                   (\<forall>(t, j) \<in> set rs. uint t * 2 ^ unat (delay_slope_shift q0) < 2 ^ 64)"
    and before: "n \<noteq> 0 \<longrightarrow> (\<forall>(t, j) \<in> set rs. uint t < uint d)"
  shows "\<exists>s'. run K s (timers rs) = Some s' \<and> stage K q0 d pc es n s' \<and>
           time_set_ns (ctl s') = time_set_ns (ctl s) \<and>
           time_clear_ns (ctl s') = time_clear_ns (ctl s)"
proof -
  have "\<exists>s'. run K s (timers rs) = Some s' \<and> callback_inv d s' \<and> timer_frame s s' \<and>
           (\<forall>v \<in> set (issued s'). v = PM_QOS_DEFAULT_VALUE K)"
    using st dm sh nowrap before by (intro timer_turns) (auto simp: stage_def)
  then obtain s' where "run K s (timers rs) = Some s'" "callback_inv d s'" "timer_frame s s'"
    "\<forall>v \<in> set (issued s'). v = PM_QOS_DEFAULT_VALUE K" by blast
  with st show ?thesis
    by (auto simp: stage_def timer_frame_def)
qed

lemma callback_inv_caller:
  assumes "callback_inv d s" and "callback s' = callback s"
    and "delay_slope_shift (ctl s') = delay_slope_shift (ctl s)"
    and "time_set_ns (ctl s') = d \<or>
         (time_set_ns (ctl s') = time_set_ns (ctl s) \<and>
          (active_count (ctl s') \<noteq> 0 \<longrightarrow> active_count (ctl s) \<noteq> 0))"
  shows "callback_inv d s'"
  using assms by (auto simp: callback_inv_def split: timer_pc.splits)

lemma caller_enter_begin:
  assumes st: "stage K q0 d Caller_idle (Begin # es) n s"
    and dt: "time_to_sf_qos_update_ns (ctl s) t = Some dt"
  shows "\<exists>s'. caller_step K s t j = Some s' \<and> stage K q0 d (Begin_store (abs_s32 dt)) es n s' \<and>
           time_set_ns (ctl s') = time_set_ns (ctl s)"
proof -
  let ?s' = "s\<lparr>todo := es, caller := Begin_store (abs_s32 dt)\<rparr>"
  from st dt have step: "caller_step K s t j = Some ?s'"
    by (simp add: caller_step_def stage_def)
  from st have ci: "callback_inv d s" by (simp add: stage_def)
  have "callback_inv d ?s'"
    by (rule callback_inv_caller [OF ci]) (use st in \<open>simp_all add: stage_def\<close>)
  with step show ?thesis using st by (simp add: stage_def)
qed

lemma caller_begin_store:
  assumes st: "stage K q0 d (Begin_store x) es n s" and d: "d = t + ucast x"
  shows "\<exists>s'. caller_step K s t j = Some s' \<and> stage K q0 d Begin_inc es n s' \<and>
           time_set_ns (ctl s') = d"
proof -
  let ?s' = "s\<lparr>ctl := (ctl s)\<lparr>time_set_ns := t + ucast x\<rparr>, caller := Begin_inc\<rparr>"
  from st have step: "caller_step K s t j = Some ?s'"
    by (simp add: caller_step_def stage_def)
  from st have ci: "callback_inv d s" by (simp add: stage_def)
  have "callback_inv d ?s'"
    by (rule callback_inv_caller [OF ci]) (use st d in \<open>simp_all add: stage_def\<close>)
  with step show ?thesis using st d by (simp add: stage_def)
qed

lemma caller_begin_inc:
  assumes st: "stage K q0 d Begin_inc es 0 s" and d: "time_set_ns (ctl s) = d"
  shows "\<exists>s'. caller_step K s t j = Some s' \<and> stage K q0 d Begin_update es 1 s' \<and>
           time_set_ns (ctl s') = d"
proof -
  let ?s' = "s\<lparr>ctl := (ctl s)\<lparr>active_count := 1\<rparr>, caller := Begin_update\<rparr>"
  from st have step: "caller_step K s t j = Some ?s'"
    by (simp add: caller_step_def stage_def)
  from st have ci: "callback_inv d s" by (simp add: stage_def)
  have "callback_inv d ?s'"
    by (rule callback_inv_caller [OF ci]) (use st d in \<open>simp_all add: stage_def\<close>)
  with step show ?thesis using st d by (simp add: stage_def)
qed

lemma caller_update:
  assumes st: "stage K q0 d pc es n s" and pc: "pc = Begin_update \<or> pc = End_update"
    and sh: "unat (delay_slope_shift q0) < 32"
  shows "\<exists>s'. caller_step K s t j = Some s' \<and> stage K q0 d Caller_idle es n s' \<and>
           time_set_ns (ctl s') = time_set_ns (ctl s)"
proof -
  from st sh have "unat (delay_slope_shift (ctl s)) < 64" by (simp add: stage_def)
  then obtain r where r: "time_to_sf_qos_update_ns (ctl s) t = Some r"
    using time_to_defined by blast
  let ?q = "(ctl s)\<lparr>timer := timer_reduce (timer (ctl s))
                (j + nsecs_to_jiffies K (ucast (max0_s32 r)))\<rparr>"
  let ?s' = "s\<lparr>ctl := ?q, caller := Caller_idle\<rparr>"
  from r have "intel_qos_update K (ctl s) t j = Some ?q"
    by (rule intel_qos_update_Some)
  with st pc have step: "caller_step K s t j = Some ?s'"
    by (auto simp: caller_step_def stage_def)
  from st have ci: "callback_inv d s" by (simp add: stage_def)
  have "callback_inv d ?s'"
    by (rule callback_inv_caller [OF ci]) (use st in \<open>simp_all add: stage_def\<close>)
  with step show ?thesis using st by (simp add: stage_def)
qed

lemma caller_enter_end:
  assumes st: "stage K q0 d Caller_idle (End # es) n s"
    and sh: "unat (delay_slope_shift q0) < 32"
  shows "\<exists>s' x. caller_step K s t j = Some s' \<and> stage K q0 d (End_store x) es n s' \<and>
           time_set_ns (ctl s') = time_set_ns (ctl s)"
proof -
  from st sh have "unat (delay_slope_shift (ctl s)) < 64" by (simp add: stage_def)
  then obtain r where r: "time_to_sf_qos_update_ns (ctl s) t = Some r"
    using time_to_defined by blast
  let ?s' = "s\<lparr>todo := es, caller := End_store (abs_s32 r)\<rparr>"
  from st r have step: "caller_step K s t j = Some ?s'"
    by (simp add: caller_step_def stage_def)
  from st have ci: "callback_inv d s" by (simp add: stage_def)
  have "callback_inv d ?s'"
    by (rule callback_inv_caller [OF ci]) (use st in \<open>simp_all add: stage_def\<close>)
  with step show ?thesis using st by (auto simp: stage_def)
qed

lemma caller_end_store:
  assumes st: "stage K q0 d (End_store x) es n s"
    and sh: "unat (delay_slope_shift q0) < 32"
  shows "\<exists>s'. caller_step K s t j = Some s' \<and> stage K q0 d End_dec es n s' \<and>
           time_set_ns (ctl s') = time_set_ns (ctl s)"
proof -
  let ?y = "drop_bit (unat (delay_slope_shift (ctl s))) x"
  let ?s' = "s\<lparr>ctl := (ctl s)\<lparr>time_clear_ns := t - ucast ?y\<rparr>, caller := End_dec\<rparr>"
  from st sh have "shr_u32 x (delay_slope_shift (ctl s)) = Some ?y"
    by (simp add: shr_u32_def stage_def)
  with st have step: "caller_step K s t j = Some ?s'"
    by (simp add: caller_step_def stage_def)
  from st have ci: "callback_inv d s" by (simp add: stage_def)
  have "callback_inv d ?s'"
    by (rule callback_inv_caller [OF ci]) (use st in \<open>simp_all add: stage_def\<close>)
  with step show ?thesis using st by (simp add: stage_def)
qed

lemma caller_end_dec:
  assumes st: "stage K q0 d End_dec es 1 s"
  shows "\<exists>s'. caller_step K s t j = Some s' \<and> stage K q0 d End_update es 0 s' \<and>
           time_set_ns (ctl s') = time_set_ns (ctl s)"
proof -
  let ?s' = "s\<lparr>ctl := (ctl s)\<lparr>active_count := 0\<rparr>, caller := End_update\<rparr>"
  from st have step: "caller_step K s t j = Some ?s'"
    by (simp add: caller_step_def stage_def)
  from st have ci: "callback_inv d s" by (simp add: stage_def)
  have "callback_inv d ?s'"
    by (rule callback_inv_caller [OF ci]) (use st in \<open>simp_all add: stage_def\<close>)
  with step show ?thesis using st by (simp add: stage_def)
qed

subsection \<open>Uninterrupted calls\<close>

text \<open>
  When the steps of a call are not interleaved with steps of the other thread, they compute
  what \<open>intel_qos_overload_begin\<close>, \<open>intel_qos_overload_end\<close> and \<open>intel_qos_timeout\<close>
  compute.
\<close>

lemma run_begin_whole:
  assumes "caller s = Caller_idle" and "todo s = Begin # es"
    and "intel_qos_overload_begin K (ctl s) ta tb tc j = Some qos'"
  shows "run K s ([Caller ta ja, Caller tb jb, Caller ti ji] @
                  (if active_count (ctl s) = 0 then [Caller tc j] else []))
         = Some (s\<lparr>ctl := qos', todo := es, caller := Caller_idle\<rparr>)"
proof -
  from assms(3) obtain r where r: "time_to_sf_qos_update_ns (ctl s) ta = Some r"
    by (auto simp: intel_qos_overload_begin_def split: option.splits)
  let ?q1 = "(ctl s)\<lparr>time_set_ns := tb + ucast (abs_s32 r)\<rparr>"
  let ?q2 = "?q1\<lparr>active_count := active_count (ctl s) + 1\<rparr>"
  let ?s1 = "s\<lparr>todo := es, caller := Begin_store (abs_s32 r)\<rparr>"
  let ?s2 = "?s1\<lparr>ctl := ?q1, caller := Begin_inc\<rparr>"
  let ?s3 = "?s2\<lparr>ctl := ?q2,
                caller := (if active_count (ctl s) = 0 then Begin_update else Caller_idle)\<rparr>"
  have 1: "caller_step K s ta ja = Some ?s1"
    using assms(1,2) r by (simp add: caller_step_def)
  have 2: "caller_step K ?s1 tb jb = Some ?s2"
    by (simp add: caller_step_def)
  have 3: "caller_step K ?s2 ti ji = Some ?s3"
    by (simp add: caller_step_def Let_def)
  show ?thesis
  proof (cases "active_count (ctl s) = 0")
    case True
    with assms(3) r have u: "intel_qos_update K ?q2 tc j = Some qos'"
      by (simp add: intel_qos_overload_begin_def Let_def)
    with True have "caller_step K ?s3 tc j = Some (?s3\<lparr>ctl := qos', caller := Caller_idle\<rparr>)"
      by (simp add: caller_step_def)
    with True 1 2 3 show ?thesis by simp
  next
    case False
    with assms(3) r have "qos' = ?q2"
      by (simp add: intel_qos_overload_begin_def Let_def)
    with False 1 2 3 show ?thesis by simp
  qed
qed

lemma run_end_whole:
  assumes "caller s = Caller_idle" and "todo s = End # es"
    and "intel_qos_overload_end K (ctl s) ta tb tc j = Some qos'"
  shows "run K s ([Caller ta ja, Caller tb jb, Caller ti ji] @
                  (if active_count (ctl s) - 1 = 0 then [Caller tc j] else []))
         = Some (s\<lparr>ctl := qos', todo := es, caller := Caller_idle\<rparr>)"
proof -
  from assms(3) obtain r where r: "time_to_sf_qos_update_ns (ctl s) ta = Some r"
    by (auto simp: intel_qos_overload_end_def split: option.splits)
  with assms(3) obtain x where x: "shr_u32 (abs_s32 r) (delay_slope_shift (ctl s)) = Some x"
    by (auto simp: intel_qos_overload_end_def Let_def split: option.splits)
  let ?q1 = "(ctl s)\<lparr>time_clear_ns := tb - ucast x\<rparr>"
  let ?q2 = "?q1\<lparr>active_count := active_count (ctl s) - 1\<rparr>"
  let ?s1 = "s\<lparr>todo := es, caller := End_store (abs_s32 r)\<rparr>"
  let ?s2 = "?s1\<lparr>ctl := ?q1, caller := End_dec\<rparr>"
  let ?s3 = "?s2\<lparr>ctl := ?q2,
                caller := (if active_count (ctl s) - 1 = 0 then End_update else Caller_idle)\<rparr>"
  have 1: "caller_step K s ta ja = Some ?s1"
    using assms(1,2) r by (simp add: caller_step_def)
  have 2: "caller_step K ?s1 tb jb = Some ?s2"
    using x by (simp add: caller_step_def)
  have 3: "caller_step K ?s2 ti ji = Some ?s3"
    by (simp add: caller_step_def Let_def)
  show ?thesis
  proof (cases "active_count (ctl s) - 1 = 0")
    case True
    with assms(3) r x have u: "intel_qos_update K ?q2 tc j = Some qos'"
      by (simp add: intel_qos_overload_end_def Let_def)
    with True have "caller_step K ?s3 tc j = Some (?s3\<lparr>ctl := qos', caller := Caller_idle\<rparr>)"
      by (simp add: caller_step_def)
    with True 1 2 3 show ?thesis by simp
  next
    case False
    with assms(3) r x have "qos' = ?q2"
      by (simp add: intel_qos_overload_end_def Let_def)
    with False 1 2 3 show ?thesis by simp
  qed
qed

lemma run_timeout_whole:
  assumes "callback s = Timer_idle"
    and dt: "time_to_sf_qos_update_ns (ctl s) t1 = Some dt"
    and "intel_qos_timeout K ((ctl s)\<lparr>timer := None\<rparr>) t1 t2 j = Some qos'"
  shows "run K s ([Timer t0 j0, Timer t1 j1, Timer ta ja, Timer tb jb] @
                  (if 0 <s dt then [Timer t2 j2, Timer tc jc, Timer td j] else []))
         = Some (s\<lparr>ctl := qos', issued := issued s @ [req qos'], callback := Timer_idle\<rparr>)"
proof -
  let ?v = "if dt = 0 then target_hz (ctl s) else PM_QOS_DEFAULT_VALUE K"
  let ?q0 = "(ctl s)\<lparr>timer := None\<rparr>"
  let ?q1 = "?q0\<lparr>req := ?v\<rparr>"
  let ?s1 = "s\<lparr>ctl := ?q0, callback := Timeout_count\<rparr>"
  let ?s2 = "?s1\<lparr>callback := Timeout_stamp t1 (active_count (ctl s))\<rparr>"
  let ?s3 = "?s2\<lparr>callback := Timeout_req dt\<rparr>"
  let ?s4 = "?s3\<lparr>ctl := ?q1, issued := issued s @ [?v],
                callback := (if 0 <s dt then Update_count else Timer_idle)\<rparr>"
  have l: "time_to_loaded ?q0 t (active_count (ctl s)) (load_stamp ?q0 (active_count (ctl s)))
      = time_to_sf_qos_update_ns (ctl s) t" for t
    by (simp add: time_to_loaded_def load_stamp_def time_to_sf_qos_update_ns_def Let_def)
  have 1: "timer_step K s t0 j0 = Some ?s1"
    using assms(1) by (simp add: timer_step_def)
  have 2: "timer_step K ?s1 t1 j1 = Some ?s2"
    by (simp add: timer_step_def)
  have 3: "timer_step K ?s2 ta ja = Some ?s3"
    using dt l [of t1] by (simp add: timer_step_def)
  have 4: "timer_step K ?s3 tb jb = Some ?s4"
    by (simp add: timer_step_def Let_def)
  show ?thesis
  proof (cases "0 <s dt")
    case False
    with assms(3) dt have "qos' = ?q1"
      by (auto simp: intel_qos_timeout_def Let_def)
    with False 1 2 3 4 show ?thesis by simp
  next
    case True
    with assms(3) dt have u: "intel_qos_update K ?q1 t2 j = Some qos'"
      by (auto simp: intel_qos_timeout_def Let_def)
    then obtain r where r: "time_to_sf_qos_update_ns (ctl s) t2 = Some r"
      and q': "qos' = ?q1\<lparr>timer := timer_reduce (timer ?q1)
                        (j + nsecs_to_jiffies K (ucast (max0_s32 r)))\<rparr>"
      by (auto simp: intel_qos_update_def Let_def split: option.splits)
    let ?s5 = "?s4\<lparr>callback := Update_stamp t2 (active_count (ctl s))\<rparr>"
    let ?s6 = "?s5\<lparr>callback := Update_timer r\<rparr>"
    have l': "time_to_loaded ?q1 t2 (active_count (ctl s)) (load_stamp ?q1 (active_count (ctl s)))
        = time_to_sf_qos_update_ns (ctl s) t2"
      by (simp add: time_to_loaded_def load_stamp_def time_to_sf_qos_update_ns_def Let_def)
    have 5: "timer_step K ?s4 t2 j2 = Some ?s5"
      using True by (simp add: timer_step_def)
    have 6: "timer_step K ?s5 tc jc = Some ?s6"
      using r l' by (simp add: timer_step_def)
    have 7: "timer_step K ?s6 td j = Some (?s6\<lparr>ctl := qos', callback := Timer_idle\<rparr>)"
      by (simp add: timer_step_def q')
    from True 1 2 3 4 5 6 7 q' show ?thesis by simp
  qed
qed

subsection \<open>The claim\<close>

text \<open>
  C7 (counterexample): the claim as stated fails when the burst follows an idle period that
  was itself short. \<open>c7_history\<close> takes a freshly initialised controller through a long
  burst; its last timer callback sees a negative delay, hands the default value to the
  request and does not re-arm, which leaves the system \<open>c7_settled\<close>: idle, timer not
  pending, default value requested. 100 us later \<open>c7_burst\<close> begins; the begin computes a
  commit delay of 200 us (twice the idle time), the timer callback that runs 200 us into
  the burst hands \<open>target_hz\<close> to the request, and the matching end comes 300 us after
  the begin, far less than \<open>delay_max_ns\<close> = 10 ms. Every call of the two executions runs
  without interruption.
\<close>

theorem C7_counterexample:
  "run example_env system_fresh c7_history = Some c7_settled \<and>
   active_count (ctl c7_settled) = 0 \<and> timer (ctl c7_settled) = None \<and>
   callback c7_settled = Timer_idle \<and> caller c7_settled = Caller_idle \<and>
   req (ctl c7_settled) = PM_QOS_DEFAULT_VALUE example_env \<and>
   map_option issued (run example_env (c7_settled\<lparr>issued := []\<rparr>) c7_burst)
     = Some [target_hz (ctl c7_settled), PM_QOS_DEFAULT_VALUE example_env] \<and>
   target_hz (ctl c7_settled) \<noteq> PM_QOS_DEFAULT_VALUE example_env \<and>
   uint (2000400000 :: u64) - uint (2000100000 :: u64) < uint (delay_max_ns (ctl c7_settled))"
  by (simp add: system_fresh_def c7_history_def c7_settled_def c7_burst_def
        qos_fresh_def intel_qos_init_def qos_zeroed_def example_env_def
        caller_step_def timer_step_def time_to_loaded_def load_stamp_def
        intel_qos_update_def time_to_sf_qos_update_ns_def shl_u64_def shr_u32_def abs_s32_def
        max0_s32_def word_sless_alt Let_def)

text \<open>
  A burst ends when its end decrements the counter, not when the end is entered: a
  callback that runs between the store and the decrement of \<open>intel_qos_overload_end\<close> still
  finds the counter raised. Here the end is entered 9 ms after the begin, before the
  deadline of 10 ms, the callback runs 11 ms after the begin, and \<open>target_hz\<close> is handed to
  the request.
\<close>

lemma late_callback_issues_target:
  "map_option issued (run example_env (system_fresh\<lparr>todo := [Begin, End]\<rparr>) c7_late_callback)
     = Some [2]"
  by (simp add: system_fresh_def c7_late_callback_def
        qos_fresh_def intel_qos_init_def qos_zeroed_def example_env_def
        caller_step_def timer_step_def time_to_loaded_def load_stamp_def
        intel_qos_update_def time_to_sf_qos_update_ns_def shl_u64_def shr_u32_def abs_s32_def
        max0_s32_def word_sless_alt Let_def)

text \<open>
  C7 (amended): take an idle controller with \<open>delay_max_ns \<ge> 1\<close> and
  \<open>delay_slope_shift < 32\<close>, no callback running, and an execution in which one caller runs
  a begin and then the matching end while the timer callback runs any number of times, its
  steps interleaved in any way with the steps of the caller. Let \<open>dt\<close> be the delay the
  begin computes. If the end decrements the counter less than \<open>|dt|\<close> after the begin
  stored its deadline (no step taken while the counter is raised having a later clock
  than the decrement), the deadline \<open>now + |dt|\<close> does not wrap, and the clock shifted
  left by \<open>delay_slope_shift\<close> stays below \<open>2^64\<close> at the steps the callback takes while
  the counter is 0, then every value handed to the request, during and after the burst, is
  the default value, and the execution is defined to its end. \<open>|dt|\<close> is \<open>delay_max_ns\<close> itself when \<open>delay_max_ns \<le> 2^31\<close> and the
  controller has been idle long enough for the decay to reach the clamp.
\<close>

theorem C7_short_burst_stays_default:
  assumes start: "active_count (ctl s) = 0" "caller s = Caller_idle" "todo s = [Begin, End]"
      "callback s = Timer_idle" "issued s = []"
    and dm: "delay_max_ns (ctl s) \<noteq> 0"
    and sh: "unat (delay_slope_shift (ctl s)) < 32"
    and dt: "time_to_sf_qos_update_ns (ctl s) ta = Some dt"
    and nowrap: "uint tb + \<bar>sint dt\<bar> < 2 ^ 64"
    and short: "uint td < uint tb + \<bar>sint dt\<bar>"
    and raised: "\<forall>(t, j) \<in> set (rd @ re @ rf @ rg). t \<le> td"
    and clock: "\<forall>(t, j) \<in> set (ra @ rb @ rc @ rh @ ri).
                  uint t * 2 ^ unat (delay_slope_shift (ctl s)) < 2 ^ 64"
  shows "(\<exists>s'. run K s
              (timers ra @ Caller ta ja # timers rb @ Caller tb jb # timers rc @
               Caller ti ji # timers rd @ Caller tc jc # timers re @
               Caller ea je # timers rf @ Caller eb jf # timers rg @
               Caller td jd # timers rh @ Caller ec jg # timers ri) = Some s' \<and>
            (\<forall>v \<in> set (issued s'). v = PM_QOS_DEFAULT_VALUE K) \<and>
            todo s' = [] \<and> caller s' = Caller_idle \<and> active_count (ctl s') = 0) \<and>
         (time_clear_ns (ctl s) < ta \<and> uint (delay_max_ns (ctl s)) \<le> 2 ^ 31 \<and>
          uint (delay_max_ns (ctl s))
            \<le> (uint ta - uint (time_clear_ns (ctl s))) * 2 ^ unat (delay_slope_shift (ctl s)) \<and>
          (uint ta - uint (time_clear_ns (ctl s))) * 2 ^ unat (delay_slope_shift (ctl s)) < 2 ^ 64
          \<longrightarrow> \<bar>sint dt\<bar> = uint (delay_max_ns (ctl s)))"
proof
  define q0 where "q0 = ctl s"
  define d where "d = tb + ucast (abs_s32 dt)"
  have dm0: "delay_max_ns q0 \<noteq> 0" and sh0: "unat (delay_slope_shift q0) < 32"
    using dm sh by (simp_all add: q0_def)
  have "uint d = (uint tb + \<bar>sint dt\<bar>) mod 2 ^ 64"
    by (simp add: d_def uint_word_ariths uint_ucast_abs)
  also have "\<dots> = uint tb + \<bar>sint dt\<bar>"
    using nowrap by (intro mod_pos_pos_trivial) simp_all
  finally have deadline: "uint d = uint tb + \<bar>sint dt\<bar>" .
  have before: "\<forall>(t, j) \<in> set rs. uint t < uint d"
    if "set rs \<subseteq> set (rd @ re @ rf @ rg)" for rs
    using that raised short by (fastforce simp: deadline word_le_def)
  have clk: "\<forall>(t, j) \<in> set rs. uint t * 2 ^ unat (delay_slope_shift q0) < 2 ^ 64"
    if "set rs \<subseteq> set (ra @ rb @ rc @ rh @ ri)" for rs
    using that clock unfolding q0_def by blast
  note seg = stage_timers [OF _ dm0 sh0]

  have "stage K q0 d Caller_idle [Begin, End] 0 s"
    using start by (simp add: stage_def callback_inv_def q0_def)
  from seg [OF this, of ra] clk [of ra]
  obtain s1 where s1: "run K s (timers ra) = Some s1" "stage K q0 d Caller_idle [Begin, End] 0 s1"
    "time_set_ns (ctl s1) = time_set_ns (ctl s)" "time_clear_ns (ctl s1) = time_clear_ns (ctl s)"
    by auto
  have "time_to_sf_qos_update_ns (ctl s1) ta = time_to_sf_qos_update_ns (ctl s) ta"
    using s1 start(1) by (intro time_to_same_fields) (simp_all add: stage_def q0_def)
  with dt have "time_to_sf_qos_update_ns (ctl s1) ta = Some dt" by simp
  from caller_enter_begin [OF s1(2) this, of ja]
  obtain s2 where s2: "caller_step K s1 ta ja = Some s2"
    "stage K q0 d (Begin_store (abs_s32 dt)) [End] 0 s2" by blast
  from seg [OF s2(2), of rb] clk [of rb]
  obtain s3 where s3: "run K s2 (timers rb) = Some s3"
    "stage K q0 d (Begin_store (abs_s32 dt)) [End] 0 s3" by auto
  from caller_begin_store [OF s3(2) d_def, of jb]
  obtain s4 where s4: "caller_step K s3 tb jb = Some s4" "stage K q0 d Begin_inc [End] 0 s4"
    "time_set_ns (ctl s4) = d" by blast
  from seg [OF s4(2), of rc] clk [of rc]
  obtain s5 where s5: "run K s4 (timers rc) = Some s5" "stage K q0 d Begin_inc [End] 0 s5"
    "time_set_ns (ctl s5) = time_set_ns (ctl s4)" by auto
  from s5(3) s4(3) have "time_set_ns (ctl s5) = d" by simp
  from caller_begin_inc [OF s5(2) this, of ti ji]
  obtain s6 where s6: "caller_step K s5 ti ji = Some s6" "stage K q0 d Begin_update [End] 1 s6"
    by blast
  from seg [OF s6(2), of rd] before [of rd]
  obtain s7 where s7: "run K s6 (timers rd) = Some s7" "stage K q0 d Begin_update [End] 1 s7"
    by auto
  from caller_update [OF s7(2) _ sh0, of tc jc]
  obtain s8 where s8: "caller_step K s7 tc jc = Some s8" "stage K q0 d Caller_idle [End] 1 s8"
    by auto
  from seg [OF s8(2), of re] before [of re]
  obtain s9 where s9: "run K s8 (timers re) = Some s9" "stage K q0 d Caller_idle [End] 1 s9"
    by auto
  from caller_enter_end [OF s9(2) sh0, of ea je]
  obtain s10 x where s10: "caller_step K s9 ea je = Some s10"
    "stage K q0 d (End_store x) [] 1 s10" by blast
  from seg [OF s10(2), of rf] before [of rf]
  obtain s11 where s11: "run K s10 (timers rf) = Some s11"
    "stage K q0 d (End_store x) [] 1 s11" by auto
  from caller_end_store [OF s11(2) sh0, of eb jf]
  obtain s12 where s12: "caller_step K s11 eb jf = Some s12" "stage K q0 d End_dec [] 1 s12"
    by blast
  from seg [OF s12(2), of rg] before [of rg]
  obtain s13 where s13: "run K s12 (timers rg) = Some s13" "stage K q0 d End_dec [] 1 s13"
    by auto
  from caller_end_dec [OF s13(2), of td jd]
  obtain s14 where s14: "caller_step K s13 td jd = Some s14" "stage K q0 d End_update [] 0 s14"
    by blast
  from seg [OF s14(2), of rh] clk [of rh]
  obtain s15 where s15: "run K s14 (timers rh) = Some s15" "stage K q0 d End_update [] 0 s15"
    by auto
  from caller_update [OF s15(2) _ sh0, of ec jg]
  obtain s16 where s16: "caller_step K s15 ec jg = Some s16" "stage K q0 d Caller_idle [] 0 s16"
    by auto
  from seg [OF s16(2), of ri] clk [of ri]
  obtain s17 where s17: "run K s16 (timers ri) = Some s17" "stage K q0 d Caller_idle [] 0 s17"
    by auto
  have "run K s
          (timers ra @ Caller ta ja # timers rb @ Caller tb jb # timers rc @
           Caller ti ji # timers rd @ Caller tc jc # timers re @
           Caller ea je # timers rf @ Caller eb jf # timers rg @
           Caller td jd # timers rh @ Caller ec jg # timers ri) = Some s17"
    by (simp add: run_append s1(1) s2(1) s3(1) s4(1) s5(1) s6(1) s7(1) s8(1) s9(1) s10(1)
          s11(1) s12(1) s13(1) s14(1) s15(1) s16(1) s17(1))
  with s17(2)
  show "\<exists>s'. run K s
              (timers ra @ Caller ta ja # timers rb @ Caller tb jb # timers rc @
               Caller ti ji # timers rd @ Caller tc jc # timers re @
               Caller ea je # timers rf @ Caller eb jf # timers rg @
               Caller td jd # timers rh @ Caller ec jg # timers ri) = Some s' \<and>
            (\<forall>v \<in> set (issued s'). v = PM_QOS_DEFAULT_VALUE K) \<and>
            todo s' = [] \<and> caller s' = Caller_idle \<and> active_count (ctl s') = 0"
    by (auto simp: stage_def)
next
  let ?qos = "ctl s"
  show "time_clear_ns ?qos < ta \<and> uint (delay_max_ns ?qos) \<le> 2 ^ 31 \<and>
          uint (delay_max_ns ?qos)
            \<le> (uint ta - uint (time_clear_ns ?qos)) * 2 ^ unat (delay_slope_shift ?qos) \<and>
          (uint ta - uint (time_clear_ns ?qos)) * 2 ^ unat (delay_slope_shift ?qos) < 2 ^ 64
          \<longrightarrow> \<bar>sint dt\<bar> = uint (delay_max_ns ?qos)"
  proof
    let ?n = "unat (delay_slope_shift ?qos)"
    let ?e = "(uint ta - uint (time_clear_ns ?qos)) * 2 ^ ?n"
    let ?m = "ucast (min (ucast (delay_max_ns ?qos) :: u64)
                 (push_bit ?n (ta - time_clear_ns ?qos))) :: s32"
    assume a: "time_clear_ns ?qos < ta \<and> uint (delay_max_ns ?qos) \<le> 2 ^ 31 \<and>
               uint (delay_max_ns ?qos) \<le> ?e \<and> ?e < 2 ^ 64"
    then have late: "time_clear_ns ?qos < ta" by simp
    from sh have "?n < 64" by simp
    with start(1) late have "time_to_sf_qos_update_ns ?qos ta = Some (- ?m)"
      by (rule time_to_idle_late)
    with dt have d: "dt = - ?m" by simp
    have "0 \<le> ?e" using late by (simp add: word_less_def)
    with a have "?e mod 2 ^ 64 = ?e" by (intro mod_pos_pos_trivial) simp_all
    then have "uint ?m = min (uint (delay_max_ns ?qos)) ?e"
      by (simp only: uint_clamped uint_shl_64 uint_elapsed [OF late])
    with a have um: "uint ?m = uint (delay_max_ns ?qos)" by simp
    with a have "sint (- ?m) = - uint ?m" by (simp add: sint_neg_32)
    with um d show "\<bar>sint dt\<bar> = uint (delay_max_ns ?qos)" by simp
  qed
qed

theorem C7_short_burst_stays_default_witness:
  "active_count (ctl (system_fresh\<lparr>todo := [Begin, End]\<rparr>)) = 0 \<and>
   delay_max_ns (ctl (system_fresh\<lparr>todo := [Begin, End]\<rparr>)) \<noteq> 0 \<and>
   unat (delay_slope_shift (ctl (system_fresh\<lparr>todo := [Begin, End]\<rparr>))) < 32 \<and>
   time_to_sf_qos_update_ns (ctl (system_fresh\<lparr>todo := [Begin, End]\<rparr>)) 1000000000
     = Some (- 10000000) \<and>
   uint (1009000000 :: u64) < uint (1000000010 :: u64) + \<bar>sint (- 10000000 :: s32)\<bar> \<and>
   (\<exists>s'. run example_env (system_fresh\<lparr>todo := [Begin, End]\<rparr>)
            (timers [] @ Caller 1000000000 250 # timers [(1000000005, 250)] @
             Caller 1000000010 250 # timers [(1000000015, 250)] @
             Caller 1000000020 250 # timers [(1000000025, 250), (1004000000, 251)] @
             Caller 1004000010 251 # timers [(1004000020, 251)] @
             Caller 1008000000 252 # timers [(1008000010, 252), (1008000020, 252)] @
             Caller 1008000030 252 # timers [(1008000040, 252)] @
             Caller 1009000000 252 # timers [(1009000010, 252), (1012000000, 253)] @
             Caller 1012000010 253 # timers [(1012000020, 253), (2000000000, 500)]) = Some s' \<and>
          (\<forall>v \<in> set (issued s'). v = - 1) \<and>
          todo s' = [] \<and> caller s' = Caller_idle \<and> active_count (ctl s') = 0)"
  using C7_short_burst_stays_default [where s = "system_fresh\<lparr>todo := [Begin, End]\<rparr>"
      and K = example_env and ta = 1000000000 and dt = "- 10000000" and tb = 1000000010
      and td = 1009000000
      and ra = "[]" and rb = "[(1000000005, 250)]" and rc = "[(1000000015, 250)]"
      and rd = "[(1000000025, 250), (1004000000, 251)]" and re = "[(1004000020, 251)]"
      and rf = "[(1008000010, 252), (1008000020, 252)]" and rg = "[(1008000040, 252)]"
      and rh = "[(1009000010, 252), (1012000000, 253)]"
      and ri = "[(1012000020, 253), (2000000000, 500)]"
      and ja = 250 and jb = 250 and ti = 1000000020 and ji = 250 and tc = 1004000010
      and jc = 251 and ea = 1008000000 and je = 252 and eb = 1008000030 and jf = 252
      and jd = 252 and ec = 1012000010 and jg = 253]
  by (simp add: system_fresh_def qos_fresh_def intel_qos_init_def qos_zeroed_def example_env_def
        time_to_sf_qos_update_ns_def shl_u64_def word_le_def)

end
